theory Spec2Isabelle
  imports Main
begin

section \<open>JavaScript strings and values\<close>

text \<open>
  A JavaScript string is a sequence of UTF-16 code units; \<open>length\<close>, \<open>slice\<close>,
  \<open>split\<close>, \<open>trim\<close> and the regular expressions of the sources all work on code
  units. A string is modelled as the list of its code units (natural numbers), so that
  \<open>length\<close> is the JavaScript \<open>length\<close>. String literals of the sources are written
  \<open>lit ''...''\<close>.
\<close>

type_synonym jstring = "nat list"

definition lit :: "string \<Rightarrow> jstring" where
  "lit s = map of_char s"

text \<open>The code units of newline, space, \<open><\<close> and \<open>>\<close>.\<close>

abbreviation NL :: nat where "NL \<equiv> 10"
abbreviation SP :: nat where "SP \<equiv> 32"
abbreviation LT :: nat where "LT \<equiv> 60"
abbreviation GT :: nat where "GT \<equiv> 62"

text \<open>
  The characters that \<open>String.prototype.trim\<close> removes and that \<open>\s\<close> matches in a
  regular expression without the \<open>u\<close> flag: ECMAScript's WhiteSpace and LineTerminator
  (tab, LF, VT, FF, CR, space, U+00A0, U+1680, U+2000..U+200A, U+2028, U+2029, U+202F,
  U+205F, U+3000, U+FEFF).
\<close>

definition is_ws :: "nat \<Rightarrow> bool" where
  "is_ws c = (c \<in> {9, 10, 11, 12, 13, 32, 160, 5760, 8232, 8233, 8239, 8287, 12288, 65279}
              \<or> (8192 \<le> c \<and> c \<le> 8202))"

definition trimStart :: "jstring \<Rightarrow> jstring" where
  "trimStart s = dropWhile is_ws s"

definition trimEnd :: "jstring \<Rightarrow> jstring" where
  "trimEnd s = rev (dropWhile is_ws (rev s))"

definition trim :: "jstring \<Rightarrow> jstring" where
  "trim s = trimEnd (trimStart s)"

text \<open>\<open>s.split('\n')\<close>: the pieces between newlines; the empty string gives one empty piece.\<close>

fun split_nl :: "jstring \<Rightarrow> jstring list" where
  "split_nl [] = [[]]"
| "split_nl (c # cs) =
     (if c = NL then [] # split_nl cs
      else (case split_nl cs of [] \<Rightarrow> [[c]] | l # ls \<Rightarrow> (c # l) # ls))"

text \<open>\<open>s.startsWith(p)\<close>.\<close>

definition startsWith :: "jstring \<Rightarrow> jstring \<Rightarrow> bool" where
  "startsWith s p = (take (length p) s = p)"

text \<open>Decimal rendering of a non-negative integer, as a template literal renders a number.\<close>

function dec :: "nat \<Rightarrow> jstring" where
  "dec n = (if n < 10 then [48 + n] else dec (n div 10) @ [48 + n mod 10])"
  by pat_completeness auto
termination
  by (relation "measure id") auto

text \<open>
  A JavaScript value, as far as the sources look at one: they test its truthiness and
  convert it to a string. \<open>JOther t s\<close> is any other value (a number, a boolean, an array,
  a plain object) with truthiness \<open>t\<close> and string conversion \<open>s\<close>; \<open>JThrows m\<close> is an
  object whose conversion to a string throws a value whose \<open>message\<close> property is \<open>m\<close>.
\<close>

datatype jsval =
    JUndefined
  | JNull
  | JString jstring
  | JOther bool jstring
  | JThrows jsval

fun truthy :: "jsval \<Rightarrow> bool" where
  "truthy JUndefined = False"
| "truthy JNull = False"
| "truthy (JString s) = (s \<noteq> [])"
| "truthy (JOther t s) = t"
| "truthy (JThrows m) = True"

text \<open>\<open>String(v)\<close> and \<open>`${v}`\<close>: \<open>Inl m\<close> when the conversion throws.\<close>

fun js_String :: "jsval \<Rightarrow> jsval + jstring" where
  "js_String JUndefined = Inr (lit ''undefined'')"
| "js_String JNull = Inr (lit ''null'')"
| "js_String (JString s) = Inr s"
| "js_String (JOther t s) = Inr s"
| "js_String (JThrows m) = Inl m"

text \<open>\<open>v || ''\<close>.\<close>

definition or_empty :: "jsval \<Rightarrow> jsval" where
  "or_empty v = (if truthy v then v else JString [])"

section \<open>The relay: server/server.js\<close>

subsection \<open>sanitizeErrorText\<close>

text \<open>
  \<open>s.replace(/<[^>]*>/g, ' ')\<close>. At a \<open><\<close> the greedy \<open>[^>]*\<close> runs to the next \<open>>\<close>;
  when a \<open>>\<close> follows, the text up to and including it becomes one space and the scan
  goes on behind it; when none follows, nothing matches at this \<open><\<close> and it stays.
\<close>

function replace_tags :: "jstring \<Rightarrow> jstring" where
  "replace_tags [] = []"
| "replace_tags (c # cs) =
     (if c = LT \<and> GT \<in> set cs
      then SP # replace_tags (tl (dropWhile (\<lambda>x. x \<noteq> GT) cs))
      else c # replace_tags cs)"
  by pat_completeness auto
termination
proof (relation "measure length")
  show "wf (measure length)" by simp
next
  fix c :: nat and cs :: jstring
  have "length (dropWhile (\<lambda>x. x \<noteq> GT) cs) \<le> length cs"
    by (rule length_dropWhile_le)
  then show "(tl (dropWhile (\<lambda>x. x \<noteq> GT) cs), c # cs) \<in> measure length"
    by simp
qed simp

text \<open>\<open>s.replace(/\s+/g, ' ')\<close>: every maximal run of whitespace becomes one space.\<close>

function collapse_ws :: "jstring \<Rightarrow> jstring" where
  "collapse_ws [] = []"
| "collapse_ws (c # cs) =
     (if is_ws c then SP # collapse_ws (dropWhile is_ws cs) else c # collapse_ws cs)"
  by pat_completeness auto
termination
  by (relation "measure length")
     (auto simp: less_Suc_eq_le intro: length_dropWhile_le)

text \<open>
  \<^verbatim>\<open>
  function sanitizeErrorText(text) {
    try {
      if (!text) return 'Connection error occurred'
      const cleanText = String(text).replace(/<[^>]*>/g, ' ')
      return cleanText.replace(/\s+/g, ' ').trim().slice(0, 200)
    } catch {
      return 'Unable to process request'
    }
  }
  \<close>
\<close>

definition sanitizeErrorText :: "jsval \<Rightarrow> jstring" where
  "sanitizeErrorText text =
     (if \<not> truthy text then lit ''Connection error occurred''
      else (case js_String text of
              Inl thrown \<Rightarrow> lit ''Unable to process request''
            | Inr s \<Rightarrow>
                (let cleanText = replace_tags s
                 in take 200 (trim (collapse_ws cleanText)))))"

subsection \<open>buildActionPrompt\<close>

text \<open>
  \<^verbatim>\<open>
  function buildActionPrompt(selection, action) {
    if (action === 'shorten') { return `Rewrite ... revised text.\n\n${selection}` }
    if (action === 'lengthen') { return `Expand ... revised text.\n\n${selection}` }
    if (action === 'table') { return `Convert ... only the table.\n\n${selection}` }
    return `Improve clarity and grammar. Return only the revised text.\n\n${selection}`
  }
  \<close>
\<close>

definition buildActionPrompt :: "jstring \<Rightarrow> jstring \<Rightarrow> jstring" where
  "buildActionPrompt selection action =
     (if action = lit ''shorten'' then
        lit ''Rewrite the following text to be shorter while preserving meaning. Return only the revised text.''
          @ [NL, NL] @ selection
      else if action = lit ''lengthen'' then
        lit ''Expand the following text with clear detail and smooth flow. Return only the revised text.''
          @ [NL, NL] @ selection
      else if action = lit ''table'' then
        lit ''Convert the following into a simple Markdown table with headers when obvious. Return only the table.''
          @ [NL, NL] @ selection
      else
        lit ''Improve clarity and grammar. Return only the revised text.''
          @ [NL, NL] @ selection)"

subsection \<open>The handler of POST /api/ai\<close>

text \<open>The fields the handler reads from \<open>req.body || {}\<close>; an absent field is \<open>undefined\<close>.\<close>

record request =
  req_message :: jsval
  req_doc :: jsval
  req_selection :: jsval
  req_action :: jsval
  req_model :: jsval

text \<open>The JSON body the relay posts to \<open>/api/generate\<close> of the inference backend.\<close>

record upstream_request =
  up_model :: jstring
  up_prompt :: jstring
  up_stream :: bool

text \<open>
  What the backend answers. \<open>resp_text\<close> is the result of \<open>text()\<close> (\<open>None\<close> when it
  rejects); \<open>resp_reads\<close> are the decoded values of the successive \<open>reader.read()\<close>
  calls, and \<open>resp_end\<close> says whether the body then ends (\<open>done\<close>) or a read rejects with
  an error whose \<open>message\<close> is given.
\<close>

datatype body_end = Body_done | Body_error jsval

record upstream_response =
  resp_ok :: bool
  resp_status :: nat
  resp_statusText :: jstring
  resp_text :: "jstring option"
  resp_reads :: "jstring list"
  resp_end :: body_end

datatype fetch_result =
    Fetch_rejected jsval
  | Fetch_response upstream_response

text \<open>
  A line of the backend's body after \<open>JSON.parse\<close>, as far as the relay looks at it: the
  value of its \<open>response\<close> property (\<open>undefined\<close> when it has none).
\<close>

record chunk =
  chunk_response :: jsval

text \<open>
  What the handler takes from its surroundings: the configured default model, the
  platform's \<open>JSON.parse\<close> (\<open>None\<close> when it throws, or when it returns \<open>null\<close>, whose
  property read throws inside the same \<open>try\<close>), and the backend behind \<open>fetch\<close>.
\<close>

record env =
  OLLAMA_MODEL :: jstring
  JSON_parse :: "jstring \<Rightarrow> chunk option"
  upstream_fetch :: "upstream_request \<Rightarrow> fetch_result"

text \<open>What one request leaves behind: the call to the backend, if one was made, the
  strings passed to \<open>res.write\<close> in order, and whether \<open>res.end()\<close> was called.\<close>

record outcome =
  contacted :: "upstream_request option"
  written :: "jstring list"
  ended :: bool

text \<open>\<^verbatim>\<open>`data: ${t}\n\n`\<close> and \<^verbatim>\<open>`data: [Error] ${m}\n\n`\<close>.\<close>

definition data_event :: "jstring \<Rightarrow> jstring" where
  "data_event t = lit ''data: '' @ t @ [NL, NL]"

definition error_event :: "jstring \<Rightarrow> jstring" where
  "error_event m = lit ''data: [Error] '' @ m @ [NL, NL]"

text \<open>
  \<^verbatim>\<open>
  const prompt = selection
    ? buildActionPrompt(String(selection || ''), String(action || ''))
    : `User: ${message || ''}\nDocument context: ${doc || ''}\n\nPlease provide a helpful response.`
  \<close>
  \<open>Inl m\<close> when a conversion throws.
\<close>

definition chat_prompt :: "jstring \<Rightarrow> jstring \<Rightarrow> jstring" where
  "chat_prompt m d =
     lit ''User: '' @ m @ [NL] @ lit ''Document context: '' @ d @ [NL, NL]
       @ lit ''Please provide a helpful response.''"

definition build_prompt :: "request \<Rightarrow> jsval + jstring" where
  "build_prompt req =
     (if truthy (req_selection req) then
        (case js_String (or_empty (req_selection req)) of
           Inl e \<Rightarrow> Inl e
         | Inr sel \<Rightarrow>
             (case js_String (or_empty (req_action req)) of
                Inl e \<Rightarrow> Inl e
              | Inr act \<Rightarrow> Inr (buildActionPrompt sel act)))
      else
        (case js_String (or_empty (req_message req)) of
           Inl e \<Rightarrow> Inl e
         | Inr m \<Rightarrow>
             (case js_String (or_empty (req_doc req)) of
                Inl e \<Rightarrow> Inl e
              | Inr d \<Rightarrow> Inr (chat_prompt m d))))"

text \<open>\<^verbatim>\<open>typeof model === 'string' && model.length > 0 ? model : OLLAMA_MODEL\<close>\<close>

definition modelToUse :: "env \<Rightarrow> request \<Rightarrow> jstring" where
  "modelToUse e req =
     (case req_model req of
        JString s \<Rightarrow> if length s > 0 then s else OLLAMA_MODEL e
      | _ \<Rightarrow> OLLAMA_MODEL e)"

text \<open>
  One line of a read:
  \<^verbatim>\<open>
  if (line.trim()) {
    try {
      const chunk = JSON.parse(line)
      if (chunk.response) { res.write(`data: ${chunk.response}\n\n`) }
    } catch (err) { /* Skip malformed JSON chunks */ }
  }
  \<close>
\<close>

definition process_line :: "env \<Rightarrow> jstring \<Rightarrow> jstring list \<Rightarrow> jstring list" where
  "process_line e line out =
     (if trim line \<noteq> [] then
        (case JSON_parse e line of
           None \<Rightarrow> out
         | Some c \<Rightarrow>
             if truthy (chunk_response c) then
               (case js_String (chunk_response c) of
                  Inl thrown \<Rightarrow> out
                | Inr t \<Rightarrow> out @ [data_event t])
             else out)
      else out)"

text \<open>\<^verbatim>\<open>for (const line of lines) { ... }\<close>\<close>

fun process_lines :: "env \<Rightarrow> jstring list \<Rightarrow> jstring list \<Rightarrow> jstring list" where
  "process_lines e [] out = out"
| "process_lines e (line # lines) out = process_lines e lines (process_line e line out)"

text \<open>
  The read loop over the values the reader delivers:
  \<^verbatim>\<open>
  while (!done) {
    const { value, done: readerDone } = await reader.read()
    if (value) { const lines = decoder.decode(value).split('\n'); for (...) {...} }
    done = readerDone
  }
  \<close>
\<close>

fun read_loop :: "env \<Rightarrow> jstring list \<Rightarrow> jstring list \<Rightarrow> jstring list" where
  "read_loop e [] out = out"
| "read_loop e (v # vs) out = read_loop e vs (process_lines e (split_nl v) out)"

text \<open>
  The \<open>catch\<close> of the handler, with the \<open>message\<close> of what was thrown:
  \<^verbatim>\<open>
  const message = error?.message ? sanitizeErrorText(error.message) : 'AI service unavailable'
  try { res.write(`data: [Error] ${message}\n\n`); res.end() } catch {}
  \<close>
\<close>

definition error_message :: "jsval \<Rightarrow> jstring" where
  "error_message m = (if truthy m then sanitizeErrorText m else lit ''AI service unavailable'')"

definition on_error :: "upstream_request option \<Rightarrow> jstring list \<Rightarrow> jsval \<Rightarrow> outcome" where
  "on_error c out m =
     \<lparr>contacted = c, written = out @ [error_event (error_message m)], ended = True\<rparr>"

text \<open>
  The message of the error thrown for a non-success status:
  \<^verbatim>\<open>
  const errorText = await ollamaResponse.text().catch(() => '')
  const cleanError = sanitizeErrorText(errorText)
  throw new Error(`Upstream ${ollamaResponse.status} ${ollamaResponse.statusText}: ${cleanError}`)
  \<close>
\<close>

definition upstream_error :: "upstream_response \<Rightarrow> jstring" where
  "upstream_error r =
     (let errorText = (case resp_text r of None \<Rightarrow> [] | Some t \<Rightarrow> t);
          cleanError = sanitizeErrorText (JString errorText)
      in lit ''Upstream '' @ dec (resp_status r) @ [SP] @ resp_statusText r @ lit '': ''
           @ cleanError)"

text \<open>The handler: the prompt, the call to the backend, then the error path or the read
  loop; every exception ends in the \<open>catch\<close>.\<close>

definition relay :: "env \<Rightarrow> request \<Rightarrow> outcome" where
  "relay e req =
     (case build_prompt req of
        Inl thrown \<Rightarrow> on_error None [] thrown
      | Inr prompt \<Rightarrow>
          (let up = \<lparr>up_model = modelToUse e req, up_prompt = prompt, up_stream = True\<rparr>
           in case upstream_fetch e up of
                Fetch_rejected m \<Rightarrow> on_error (Some up) [] m
              | Fetch_response r \<Rightarrow>
                  if \<not> resp_ok r then on_error (Some up) [] (JString (upstream_error r))
                  else
                    (let out = read_loop e (resp_reads r) []
                     in case resp_end r of
                          Body_done \<Rightarrow> \<lparr>contacted = Some up, written = out, ended = True\<rparr>
                        | Body_error m \<Rightarrow> on_error (Some up) out m)))"

section \<open>The client\<close>

subsection \<open>buildActionPrompt of the client's prompt utilities\<close>

text \<open>
  \<^verbatim>\<open>
  export function buildActionPrompt(selection: string, action: string): string {
    const cleanSelection = selection.trim();
    switch (action) {
      case 'shorten': return `Rewrite ... revised text.\n\n${cleanSelection}`;
      case 'lengthen': return `Expand ... revised text.\n\n${cleanSelection}`;
      case 'table': return `Convert ... only the table.\n\n${cleanSelection}`;
      case 'grammar':
      default: return `Improve clarity and grammar. Return only the revised text.\n\n${cleanSelection}`;
    }
  }
  \<close>
  The relay has a function of the same name; this one is named after its file.
\<close>

definition aiPrompts_buildActionPrompt :: "jstring \<Rightarrow> jstring \<Rightarrow> jstring" where
  "aiPrompts_buildActionPrompt selection action =
     (let cleanSelection = trim selection
      in if action = lit ''shorten'' then
           lit ''Rewrite the following text to be shorter while preserving meaning. Return only the revised text.''
             @ [NL, NL] @ cleanSelection
         else if action = lit ''lengthen'' then
           lit ''Expand the following text with clear detail and smooth flow. Return only the revised text.''
             @ [NL, NL] @ cleanSelection
         else if action = lit ''table'' then
           lit ''Convert the following into a simple Markdown table with headers when obvious. Return only the table.''
             @ [NL, NL] @ cleanSelection
         else
           lit ''Improve clarity and grammar. Return only the revised text.''
             @ [NL, NL] @ cleanSelection)"

subsection \<open>stripThinkBlocks\<close>

text \<open>
  \<^verbatim>\<open>
  function stripThinkBlocks(text: string) {
    return text.replace(/<think>[\s\S]*?<\/think>/gi, '').trim();
  }
  \<close>
  With the \<open>i\<close> flag and without the \<open>u\<close> flag a code unit matches a pattern character
  when both have the same upper-case form, and no code unit outside ASCII is mapped into
  ASCII; for the ASCII characters of the two delimiters this is \<open>upper\<close> below.
\<close>

definition upper :: "nat \<Rightarrow> nat" where
  "upper c = (if 97 \<le> c \<and> c \<le> 122 then c - 32 else c)"

definition starts_ci :: "jstring \<Rightarrow> jstring \<Rightarrow> bool" where
  "starts_ci s p = (map upper (take (length p) s) = map upper p)"

definition OPEN :: jstring where
  "OPEN = lit ''<think>''"

definition CLOSE :: jstring where
  "CLOSE = lit ''</think>''"

text \<open>The text behind the first closing delimiter, if there is one: where the lazy
  \<open>[\s\S]*?\<close> stops.\<close>

fun find_close :: "jstring \<Rightarrow> jstring option" where
  "find_close [] = None"
| "find_close (c # cs) =
     (if starts_ci (c # cs) CLOSE then Some (drop 8 (c # cs)) else find_close cs)"

text \<open>
  The global replace by the empty string: at the leftmost position where an opening
  delimiter is followed by a closing one, the text up to the end of the first closing
  delimiter is removed and the scan goes on behind it; every other code unit stays.
\<close>

function remove_blocks :: "jstring \<Rightarrow> jstring" where
  "remove_blocks [] = []"
| "remove_blocks (c # cs) =
     (if starts_ci (c # cs) OPEN then
        (case find_close (drop 7 (c # cs)) of
           Some rest \<Rightarrow> remove_blocks rest
         | None \<Rightarrow> c # remove_blocks cs)
      else c # remove_blocks cs)"
  by pat_completeness auto
termination
proof (relation "measure length")
  show "wf (measure length)" by simp
next
  fix c :: nat and cs rest :: jstring
  assume "find_close (drop 7 (c # cs)) = Some rest"
  moreover have "find_close s = Some r \<Longrightarrow> length r \<le> length s" for s r
    by (induction s) (auto split: if_splits)
  ultimately have "length rest \<le> length (drop 7 (c # cs))"
    by blast
  then show "(rest, c # cs) \<in> measure length"
    by simp
qed simp_all

definition stripThinkBlocks :: "jstring \<Rightarrow> jstring" where
  "stripThinkBlocks text = trim (remove_blocks text)"

subsection \<open>fetchAI of clientCalls.tsx\<close>

text \<open>
  \<open>/^<think>[\s\S]*?<\/think>$/.test(t)\<close>, without flags: the lazy middle part grows until
  the closing delimiter ends the string, so the test holds exactly when \<open>t\<close> begins with
  the opening delimiter and ends with the closing one, the two not overlapping.
\<close>

definition is_think_only :: "jstring \<Rightarrow> bool" where
  "is_think_only t =
     (15 \<le> length t \<and> take 7 t = lit ''<think>'' \<and> drop (length t - 8) t = lit ''</think>'')"

text \<open>
  The body of the loop over the lines of one read, for a caller's state \<open>'s\<close> that the
  callback \<open>onStream\<close> changes; \<open>isThinking\<close> and \<open>response\<close> are the locals of \<open>fetchAI\<close>.
  \<^verbatim>\<open>
  chunk.split('\n').forEach(line => {
    if (line.startsWith('data: ')) {
      const text = line.slice(6);
      if (/^<think>[\s\S]*?<\/think>$/.test(text.trim())) { isThinking = true; }
      else { response += text; if (onStream) onStream(text); }
    }
  });
  \<close>
\<close>

definition fetchAI_line ::
  "(jstring \<Rightarrow> 's \<Rightarrow> 's) \<Rightarrow> jstring \<Rightarrow> bool \<times> jstring \<times> 's \<Rightarrow> bool \<times> jstring \<times> 's" where
  "fetchAI_line onStream line acc =
     (case acc of (isThinking, response, st) \<Rightarrow>
        if startsWith line (lit ''data: '') then
          (let text = drop 6 line
           in if is_think_only (trim text) then (True, response, st)
              else (isThinking, response @ text, onStream text st))
        else (isThinking, response, st))"

text \<open>
  One read of the streaming branch: \<open>decoder.decode(value)\<close> split into lines. The
  relay always answers with the content type \<open>text/event-stream\<close>, so the other
  branch of \<open>fetchAI\<close> is not taken.
\<close>

definition fetchAI_read ::
  "(jstring \<Rightarrow> 's \<Rightarrow> 's) \<Rightarrow> jstring \<Rightarrow> bool \<times> jstring \<times> 's \<Rightarrow> bool \<times> jstring \<times> 's" where
  "fetchAI_read onStream v acc = fold (fetchAI_line onStream) (split_nl v) acc"

subsection \<open>The chat component: ui/Chat.tsx\<close>

datatype role = User | Assistant

record message =
  role :: role
  content :: jstring

datatype status = Idle | Streaming

text \<open>
  A call of \<open>fetch('/api/ai', init)\<close>: the fields of the posted body, the abort signal in
  \<open>init\<close> (the number of its \<open>AbortController\<close>; \<open>None\<close> when \<open>init\<close> has no \<open>signal\<close>)
  and whether the connection is still open. The platform closes a connection, and
  rejects its pending read, when the controller of its signal aborts; a call without a
  signal cannot be aborted.
\<close>

record connection =
  conn_message :: jstring
  conn_doc :: jstring
  conn_model :: jstring
  conn_signal :: "nat option"
  conn_open :: bool

text \<open>
  The state of the component. \<open>messages\<close>, \<open>input\<close> and \<open>status\<close> are React state;
  \<open>input\<close> and \<open>status\<close> hold the values of the last render, which are what the
  handlers of that render read, and a \<open>setInput\<close> or \<open>setStatus\<close> is kept as pending
  until the next render. \<open>messages\<close> is only changed by functional updates and only read
  when rendering, so its updates are applied at once. The refs are plain mutable cells.
  \<open>controllers\<close> counts the \<open>AbortController\<close>s created so far, \<open>conns\<close> are the calls
  of \<open>fetch\<close> in order.
\<close>

record chat =
  messages :: "message list"
  input :: jstring
  status :: status
  pending_input :: "jstring option"
  pending_status :: "status option"
  statusRef :: status
  bufferRef :: jstring
  abortRef :: "nat option"
  controllers :: nat
  conns :: "connection list"

text \<open>The props: what \<open>getDoc()\<close> returns and the selected model.\<close>

record props =
  getDoc :: jstring
  model :: jstring

definition initial_chat :: chat where
  "initial_chat =
     \<lparr>messages = [], input = [], status = Idle, pending_input = None, pending_status = None,
      statusRef = Idle, bufferRef = [], abortRef = None, controllers = 0, conns = []\<rparr>"

text \<open>
  A render commits the pending state; the effect
  \<^verbatim>\<open>useEffect(() => { statusRef.current = status; }, [status])\<close>
  then runs if \<open>status\<close> has changed.
\<close>

definition render :: "chat \<Rightarrow> chat" where
  "render c =
     (let st = (case pending_status c of None \<Rightarrow> status c | Some s \<Rightarrow> s);
          inp = (case pending_input c of None \<Rightarrow> input c | Some i \<Rightarrow> i)
      in c\<lparr>input := inp, status := st, pending_input := None, pending_status := None,
            statusRef := (if st \<noteq> status c then st else statusRef c)\<rparr>)"

text \<open>\<open>onChange={e => setInput(e.target.value)}\<close>.\<close>

definition type_input :: "jstring \<Rightarrow> chat \<Rightarrow> chat" where
  "type_input v c = c\<lparr>pending_input := Some v\<rparr>"

text \<open>
  \<^verbatim>\<open>
  for (let i = copy.length - 1; i >= 0; i--) {
    if (copy[i].role === 'assistant') { copy[i] = { ...copy[i], content: newContent }; break; }
  }
  \<close>
\<close>

fun replace_first_assistant :: "jstring \<Rightarrow> message list \<Rightarrow> message list" where
  "replace_first_assistant newContent [] = []"
| "replace_first_assistant newContent (m # ms) =
     (if role m = Assistant then m\<lparr>content := newContent\<rparr> # ms
      else m # replace_first_assistant newContent ms)"

definition updateLastAssistant :: "jstring \<Rightarrow> chat \<Rightarrow> chat" where
  "updateLastAssistant newContent c =
     c\<lparr>messages := rev (replace_first_assistant newContent (rev (messages c)))\<rparr>"

text \<open>\<open>controller.abort()\<close>: closes the connections that were given its signal.\<close>

definition abort_controller :: "nat \<Rightarrow> connection list \<Rightarrow> connection list" where
  "abort_controller k cs =
     map (\<lambda>cn. if conn_signal cn = Some k then cn\<lparr>conn_open := False\<rparr> else cn) cs"

text \<open>
  \<^verbatim>\<open>
  const abortIfStreaming = useCallback(() => {
    if (statusRef.current === 'streaming') {
      abortRef.current?.abort();
      abortRef.current = null;
      setStatus('idle');
    }
  }, []);
  \<close>
\<close>

definition abortIfStreaming :: "chat \<Rightarrow> chat" where
  "abortIfStreaming c =
     (if statusRef c = Streaming then
        c\<lparr>conns := (case abortRef c of None \<Rightarrow> conns c | Some k \<Rightarrow> abort_controller k (conns c)),
          abortRef := None,
          pending_status := Some Idle\<rparr>
      else c)"

text \<open>
  \<open>send\<close> up to its \<open>await\<close>: the guard, the reset, the two new transcript entries, the
  new controller, and the call of \<open>fetchAI\<close>, whose \<open>fetch\<close> is given the method, the
  headers and the body, and no signal.
  \<^verbatim>\<open>
  const content = input.trim();
  if (!content || status !== 'idle') return;
  setInput('');
  bufferRef.current = '';
  setMessages(m => [...m, { role: 'user', content }, { role: 'assistant', content: '__thinking__' }]);
  const ac = new AbortController();
  abortRef.current = ac;
  setStatus('streaming');
  try { await fetchAI({ message: content, doc: getDoc(), model, onStream: ... });
  \<close>
\<close>

definition send :: "props \<Rightarrow> chat \<Rightarrow> chat" where
  "send p c =
     (let content = trim (input c)
      in if content = [] \<or> status c \<noteq> Idle then c
         else
           c\<lparr>pending_input := Some [],
             bufferRef := [],
             messages := messages c @ [\<lparr>role = User, content = content\<rparr>,
                                       \<lparr>role = Assistant, content = lit ''__thinking__''\<rparr>],
             abortRef := Some (controllers c),
             controllers := Suc (controllers c),
             pending_status := Some Streaming,
             conns := conns c @ [\<lparr>conn_message = content, conn_doc = getDoc p,
                                   conn_model = model p, conn_signal = None,
                                   conn_open = True\<rparr>]\<rparr>)"

text \<open>
  The callback \<open>send\<close> passes to \<open>fetchAI\<close>:
  \<^verbatim>\<open>
  onStream: (chunk: string) => {
    if (statusRef.current !== 'streaming') return;
    bufferRef.current += chunk;
    updateLastAssistant(stripThinkBlocks(bufferRef.current));
  }
  \<close>
\<close>

definition onStream :: "jstring \<Rightarrow> chat \<Rightarrow> chat" where
  "onStream chunk c =
     (if statusRef c \<noteq> Streaming then c
      else (let c' = c\<lparr>bufferRef := bufferRef c @ chunk\<rparr>
            in updateLastAssistant (stripThinkBlocks (bufferRef c')) c'))"

text \<open>
  The events that continue a call of \<open>send\<close> after its \<open>await\<close>, for the connection
  numbered \<open>k\<close>. A read delivers a value only on an open connection. \<open>send\<close> does not
  use what \<open>fetchAI\<close> returns, so the locals of \<open>fetchAI\<close> are not kept from one read
  to the next.
\<close>

definition deliver :: "nat \<Rightarrow> jstring \<Rightarrow> chat \<Rightarrow> chat" where
  "deliver k v c =
     (if k < length (conns c) \<and> conn_open (conns c ! k)
      then snd (snd (fetchAI_read onStream v (False, [], c)))
      else c)"

text \<open>The \<open>finally\<close> of \<open>send\<close>: \<open>abortRef.current = null; setStatus('idle')\<close>.\<close>

definition finally_send :: "chat \<Rightarrow> chat" where
  "finally_send c = c\<lparr>abortRef := None, pending_status := Some Idle\<rparr>"

definition close_conn :: "nat \<Rightarrow> chat \<Rightarrow> chat" where
  "close_conn k c = c\<lparr>conns := (conns c)[k := (conns c ! k)\<lparr>conn_open := False\<rparr>]\<rparr>"

text \<open>
  The stream ends and \<open>fetchAI\<close> returns:
  \<open>if (!bufferRef.current) updateLastAssistant('[No response]')\<close>, then the \<open>finally\<close>.
\<close>

definition complete :: "nat \<Rightarrow> chat \<Rightarrow> chat" where
  "complete k c =
     (if k < length (conns c) \<and> conn_open (conns c ! k) then
        (let c1 = close_conn k c;
             c2 = (if bufferRef c1 = [] then updateLastAssistant (lit ''[No response]'') c1 else c1)
         in finally_send c2)
      else c)"

text \<open>
  \<open>fetchAI\<close> throws a value whose \<open>message\<close> is \<open>m\<close>:
  \<^verbatim>\<open>
  if (statusRef.current === 'streaming') {
    updateLastAssistant('Error: ' + (e?.message || 'request failed'));
  }
  \<close>
  then the \<open>finally\<close>. The message is taken as a string or absent.
\<close>

definition fail :: "nat \<Rightarrow> jstring \<Rightarrow> chat \<Rightarrow> chat" where
  "fail k m c =
     (if k < length (conns c) then
        (let c1 = close_conn k c;
             c2 = (if statusRef c1 = Streaming
                   then updateLastAssistant
                          (lit ''Error: '' @ (if m = [] then lit ''request failed'' else m)) c1
                   else c1)
         in finally_send c2)
      else c)"

text \<open>What can happen to the component, one after the other.\<close>

datatype event =
    Type jstring
  | Send
  | Abort
  | Render
  | Deliver nat jstring
  | Complete nat
  | Fail nat jstring

fun step :: "props \<Rightarrow> event \<Rightarrow> chat \<Rightarrow> chat" where
  "step p (Type v) c = type_input v c"
| "step p Send c = send p c"
| "step p Abort c = abortIfStreaming c"
| "step p Render c = render c"
| "step p (Deliver k v) c = deliver k v c"
| "step p (Complete k) c = complete k c"
| "step p (Fail k m) c = fail k m c"

definition run :: "props \<Rightarrow> event list \<Rightarrow> chat \<Rightarrow> chat" where
  "run p evs c = fold (step p) evs c"

section \<open>Specification-level notions and concrete inputs\<close>

text \<open>A string has no complete tag: no \<open><\<close> is followed, anywhere later, by a \<open>>\<close>.\<close>

fun tagless :: "jstring \<Rightarrow> bool" where
  "tagless [] = True"
| "tagless (c # cs) = (if c = LT then GT \<notin> set cs else tagless cs)"

text \<open>
  The text a line of the backend's body contributes, in the words of the specification:
  the line parses as JSON and carries a non-empty \<open>response\<close> text field. The events
  expected for a body are one chunk event per such line of the body, in order; the body
  is the concatenation of its reads, and its lines are what lies between its newlines.
\<close>

definition line_text :: "env \<Rightarrow> jstring \<Rightarrow> jstring option" where
  "line_text e line =
     (case JSON_parse e line of
        None \<Rightarrow> None
      | Some c \<Rightarrow>
          (case chunk_response c of
             JString t \<Rightarrow> if t = [] then None else Some t
           | _ \<Rightarrow> None))"

definition expected_events :: "env \<Rightarrow> jstring list \<Rightarrow> jstring list" where
  "expected_events e reads =
     map data_event (List.map_filter (line_text e) (split_nl (concat reads)))"

text \<open>
  The pieces of the reads: every read is split at its newlines on its own, so a line of
  the body that a read boundary cuts gives two pieces. A piece contributes a text when
  it is not blank, parses as JSON, and carries a truthy \<open>response\<close> whose conversion to
  a string succeeds; the text is that conversion.
\<close>

definition pieces :: "jstring list \<Rightarrow> jstring list" where
  "pieces reads = concat (map split_nl reads)"

definition piece_text :: "env \<Rightarrow> jstring \<Rightarrow> jstring option" where
  "piece_text e piece =
     (if trim piece = [] then None
      else (case JSON_parse e piece of
              None \<Rightarrow> None
            | Some c \<Rightarrow>
                if truthy (chunk_response c) then
                  (case js_String (chunk_response c) of
                     Inl thrown \<Rightarrow> None
                   | Inr t \<Rightarrow> Some t)
                else None))"

definition piece_events :: "env \<Rightarrow> jstring list \<Rightarrow> jstring list" where
  "piece_events e reads = map data_event (List.map_filter (piece_text e) (pieces reads))"

text \<open>
  Inputs for the examples: what \<open>JSON.parse\<close> gives on the lines used below, backends
  with a fixed answer, and requests.
\<close>

definition parse_demo :: "jstring \<Rightarrow> chunk option" where
  "parse_demo l =
     (if l = lit ''{\"response\":\"Hi\"}'' then Some \<lparr>chunk_response = JString (lit ''Hi'')\<rparr>
      else if l = lit ''{\"response\":\" there\"}'' then Some \<lparr>chunk_response = JString (lit '' there'')\<rparr>
      else if l = lit ''{\"response\":\"\",\"done\":true}'' then Some \<lparr>chunk_response = JString []\<rparr>
      else if l = lit ''{\"done\":true}'' then Some \<lparr>chunk_response = JUndefined\<rparr>
      else None)"

definition env_demo :: "upstream_response \<Rightarrow> env" where
  "env_demo r = \<lparr>OLLAMA_MODEL = lit ''llama3.2'', JSON_parse = parse_demo,
                  upstream_fetch = (\<lambda>up. Fetch_response r)\<rparr>"

definition resp_hi :: upstream_response where
  "resp_hi = \<lparr>resp_ok = True, resp_status = 200, resp_statusText = lit ''OK'', resp_text = None,
              resp_reads = [lit ''{\"response\":\"Hi\"}'' @ [NL]], resp_end = Body_done\<rparr>"

definition req_empty :: request where
  "req_empty = \<lparr>req_message = JUndefined, req_doc = JUndefined, req_selection = JUndefined,
                req_action = JUndefined, req_model = JUndefined\<rparr>"

definition resp_two :: upstream_response where
  "resp_two = \<lparr>resp_ok = True, resp_status = 200, resp_statusText = lit ''OK'', resp_text = None,
     resp_reads = [lit ''{\"response\":\"Hi\"}'' @ [NL] @ lit ''{\"respo'',
                   lit ''{\"response\":\" there\"}'' @ [NL] @ lit ''{\"response\":\"\",\"done\":true}'' @ [NL]],
     resp_end = Body_done\<rparr>"

definition resp_cut :: upstream_response where
  "resp_cut = \<lparr>resp_ok = True, resp_status = 200, resp_statusText = lit ''OK'', resp_text = None,
     resp_reads = [lit ''{\"respon'', lit ''se\":\"Hi\"}'' @ [NL]], resp_end = Body_done\<rparr>"

definition req_doc_throws :: request where
  "req_doc_throws =
     \<lparr>req_message = JUndefined,
      req_doc = JThrows (JString (lit ''Cannot convert object to primitive value'')),
      req_selection = JUndefined, req_action = JUndefined, req_model = JUndefined\<rparr>"

text \<open>The template an action selects, with the blank line that ends it.\<close>

definition action_template :: "jstring \<Rightarrow> jstring" where
  "action_template action =
     (if action = lit ''shorten'' then
        lit ''Rewrite the following text to be shorter while preserving meaning. Return only the revised text.''
      else if action = lit ''lengthen'' then
        lit ''Expand the following text with clear detail and smooth flow. Return only the revised text.''
      else if action = lit ''table'' then
        lit ''Convert the following into a simple Markdown table with headers when obvious. Return only the table.''
      else lit ''Improve clarity and grammar. Return only the revised text.'') @ [NL, NL]"

definition req_shorten :: request where
  "req_shorten = \<lparr>req_message = JUndefined, req_doc = JUndefined,
                  req_selection = JString (lit '' hi ''), req_action = JString (lit ''shorten''),
                  req_model = JUndefined\<rparr>"

definition resp_503 :: upstream_response where
  "resp_503 = \<lparr>resp_ok = False, resp_status = 503, resp_statusText = lit ''Service Unavailable'',
               resp_text = Some (lit ''<html>Service Unavailable</html>''),
               resp_reads = [], resp_end = Body_done\<rparr>"

definition resp_500 :: upstream_response where
  "resp_500 = \<lparr>resp_ok = False, resp_status = 500, resp_statusText = lit ''Internal Server Error'',
               resp_text = Some (lit ''a > b''),
               resp_reads = [], resp_end = Body_done\<rparr>"

text \<open>A string holds a complete block: an opening delimiter with a closing one behind it.\<close>

fun has_block :: "jstring \<Rightarrow> bool" where
  "has_block [] = False"
| "has_block (c # cs) =
     ((starts_ci (c # cs) OPEN \<and> find_close (drop 7 (c # cs)) \<noteq> None) \<or> has_block cs)"

text \<open>Props for the examples.\<close>

definition props0 :: props where
  "props0 = \<lparr>getDoc = [], model = lit ''llama3.2''\<rparr>"

section \<open>Properties\<close>

subsection \<open>Auxiliary lemmas\<close>

lemma tagless_no_GT: "GT \<notin> set s \<Longrightarrow> tagless s"
  by (induction s) auto

lemma tagless_take: "tagless s \<Longrightarrow> tagless (take n s)"
proof (induction s arbitrary: n)
  case Nil
  then show ?case by simp
next
  case (Cons c cs)
  show ?case
  proof (cases n)
    case 0
    then show ?thesis by simp
  next
    case (Suc m)
    with Cons show ?thesis
      by (auto dest: in_set_takeD)
  qed
qed

lemma tagless_dropWhile: "tagless s \<Longrightarrow> tagless (dropWhile P s)"
  by (induction s) (auto simp: tagless_no_GT split: if_splits)

lemma trimEnd_take: "trimEnd s = take (length s - length (takeWhile is_ws (rev s))) s"
  by (simp add: trimEnd_def dropWhile_eq_drop rev_drop)

lemma tagless_trim: "tagless s \<Longrightarrow> tagless (trim s)"
  by (simp add: trim_def trimStart_def trimEnd_take tagless_take tagless_dropWhile)

lemma set_collapse_ws: "set (collapse_ws s) \<subseteq> insert SP (set s)"
  by (induction s rule: collapse_ws.induct) (auto dest: set_dropWhileD)

lemma not_ws_LT [simp]: "\<not> is_ws LT" and not_ws_GT [simp]: "\<not> is_ws GT"
  by (simp_all add: is_ws_def)

lemma tagless_collapse_ws: "tagless s \<Longrightarrow> tagless (collapse_ws s)"
proof (induction s rule: collapse_ws.induct)
  case 1
  then show ?case by simp
next
  case (2 c cs)
  show ?case
  proof (cases "is_ws c")
    case True
    then have "c \<noteq> LT" by auto
    with 2 True show ?thesis by (auto simp: tagless_dropWhile)
  next
    case False
    with 2 set_collapse_ws [of cs] show ?thesis by auto
  qed
qed

lemma set_replace_tags: "set (replace_tags s) \<subseteq> insert SP (set s)"
proof (induction s rule: replace_tags.induct)
  case 1
  then show ?case by simp
next
  case (2 c cs)
  have "x \<in> set cs" if "x \<in> set (tl (dropWhile (\<lambda>x. x \<noteq> GT) cs))" for x
    using that set_dropWhileD [of x "\<lambda>x. x \<noteq> GT" cs]
    by (cases "dropWhile (\<lambda>x. x \<noteq> GT) cs") auto
  then have "set (tl (dropWhile (\<lambda>x. x \<noteq> GT) cs)) \<subseteq> set cs"
    by blast
  with 2 show ?case by auto
qed

lemma tagless_replace_tags: "tagless (replace_tags s)"
proof (induction s rule: replace_tags.induct)
  case 1
  then show ?case by simp
next
  case (2 c cs)
  with set_replace_tags [of cs] show ?case by auto
qed

lemma tagless_append_LT: "tagless (a @ LT # r) \<Longrightarrow> GT \<notin> set r"
  by (induction a) (auto split: if_splits)

lemma tagless_no_pair: "tagless s \<Longrightarrow> \<not> (\<exists>a b c. s = a @ LT # b @ GT # c)"
  by (auto dest: tagless_append_LT)

lemma tagless_sanitize: "tagless (sanitizeErrorText v)"
  by (auto simp: sanitizeErrorText_def lit_def tagless_take tagless_trim tagless_collapse_ws tagless_replace_tags split: sum.split)

lemma process_lines_append:
  "process_lines e (xs @ ys) out = process_lines e ys (process_lines e xs out)"
  by (induction xs arbitrary: out) auto

lemma map_filter_append: "List.map_filter f (xs @ ys) = List.map_filter f xs @ List.map_filter f ys"
  by (simp add: List.map_filter_def)

lemma process_line_spec:
  "process_line e l out = out @ map data_event (List.map_filter (piece_text e) [l])"
  by (simp add: process_line_def piece_text_def List.map_filter_simps
      split: option.split sum.split)

lemma process_lines_spec:
  "process_lines e ls out = out @ map data_event (List.map_filter (piece_text e) ls)"
proof (induction ls arbitrary: out)
  case Nil
  then show ?case by (simp add: List.map_filter_simps)
next
  case (Cons l ls)
  have "List.map_filter (piece_text e) (l # ls)
        = List.map_filter (piece_text e) [l] @ List.map_filter (piece_text e) ls"
    using map_filter_append [of "piece_text e" "[l]" ls] by simp
  with Cons process_line_spec [of e l out] show ?case by simp
qed

lemma read_loop_spec: "read_loop e reads out = out @ piece_events e reads"
proof (induction reads arbitrary: out)
  case Nil
  then show ?case by (simp add: piece_events_def pieces_def List.map_filter_simps)
next
  case (Cons v vs)
  show ?case
    by (simp add: Cons process_lines_spec piece_events_def pieces_def map_filter_append)
qed

lemma split_nl_nonempty: "split_nl s \<noteq> []"
  by (induction s) (auto split: list.split)

lemma split_nl_append_NL: "split_nl (x @ NL # r) = split_nl x @ split_nl r"
proof (induction x)
  case Nil
  then show ?case by simp
next
  case (Cons c cs)
  obtain l ls where "split_nl cs = l # ls"
    using split_nl_nonempty [of cs] by (cases "split_nl cs") auto
  with Cons show ?case by simp
qed

lemma piece_text_blank: "piece_text e [] = None"
  by (simp add: piece_text_def trim_def trimStart_def trimEnd_def)

lemma whole_lines_pieces:
  assumes "\<forall>v \<in> set reads. v \<noteq> [] \<and> last v = NL"
  shows "List.map_filter (piece_text e) (split_nl (concat reads))
         = List.map_filter (piece_text e) (pieces reads)"
  using assms
proof (induction reads)
  case Nil
  then show ?case by (simp add: pieces_def piece_text_blank List.map_filter_simps)
next
  case (Cons v vs)
  then have "v \<noteq> []" and "last v = NL" by simp_all
  then have v: "v = butlast v @ [NL]"
    by (metis append_butlast_last_id)
  have a: "split_nl (concat (v # vs)) = split_nl (butlast v) @ split_nl (concat vs)"
    using split_nl_append_NL [of "butlast v" "concat vs"] v
    by (metis append_Cons append_Nil append_assoc concat.simps(2))
  have b: "split_nl v = split_nl (butlast v) @ [[]]"
    using split_nl_append_NL [of "butlast v" "[]"] v by (metis split_nl.simps(1))
  from Cons have ih: "List.map_filter (piece_text e) (split_nl (concat vs))
         = List.map_filter (piece_text e) (pieces vs)" by simp
  show ?case
    unfolding a
    by (simp add: pieces_def b map_filter_append piece_text_blank List.map_filter_simps
        ih [unfolded pieces_def])
qed

lemma split_nl_line: "NL \<notin> set xs \<Longrightarrow> split_nl (xs @ NL # r) = xs # split_nl r"
  by (induction xs) auto

lemma split_nl_data_event:
  "NL \<notin> set t \<Longrightarrow> split_nl (data_event t @ r) = (lit ''data: '' @ t) # [] # split_nl r"
proof -
  assume a: "NL \<notin> set t"
  have "NL \<notin> set (lit ''data: '' @ t)" using a by (simp add: lit_def)
  from split_nl_line [OF this, of "NL # r"] split_nl_line [of "[]" r]
  show ?thesis by (simp add: data_event_def)
qed

lemma fetchAI_line_empty: "fetchAI_line f [] acc = acc"
  by (simp add: fetchAI_line_def startsWith_def lit_def split: prod.split)

lemma fetchAI_line_data:
  "fetchAI_line f (lit ''data: '' @ t) (i, r, st)
     = (if is_think_only (trim t) then (True, r, st) else (i, r @ t, f t st))"
  by (simp add: fetchAI_line_def startsWith_def lit_def)

lemma fetchAI_read_events:
  "\<forall>t \<in> set g. NL \<notin> set t \<Longrightarrow>
   snd (snd (fetchAI_read f (concat (map data_event g)) (i, r, st)))
     = fold f (filter (\<lambda>t. \<not> is_think_only (trim t)) g) st"
proof (induction g arbitrary: i r st)
  case Nil
  then show ?case by (simp add: fetchAI_read_def fetchAI_line_empty)
next
  case (Cons t g)
  then have nl: "NL \<notin> set t" and rest: "\<forall>t \<in> set g. NL \<notin> set t" by auto
  have "fetchAI_read f (concat (map data_event (t # g))) (i, r, st)
        = fetchAI_read f (concat (map data_event g)) (fetchAI_line f (lit ''data: '' @ t) (i, r, st))"
    using split_nl_data_event [OF nl, of "concat (map data_event g)"]
    by (simp add: fetchAI_read_def fetchAI_line_empty)
  with Cons.IH [OF rest] show ?case
    by (simp add: fetchAI_line_data)
qed

lemma onStream_streaming:
  "statusRef c = Streaming \<Longrightarrow>
   statusRef (onStream t c) = Streaming \<and> conns (onStream t c) = conns c
   \<and> bufferRef (onStream t c) = bufferRef c @ t"
  by (simp add: onStream_def updateLastAssistant_def Let_def)

lemma fold_onStream:
  "statusRef c = Streaming \<Longrightarrow>
   statusRef (fold onStream ts c) = Streaming \<and> conns (fold onStream ts c) = conns c
   \<and> bufferRef (fold onStream ts c) = bufferRef c @ concat ts"
proof (induction ts arbitrary: c)
  case Nil
  then show ?case by simp
next
  case (Cons t ts)
  from onStream_streaming [OF Cons.prems, of t] Cons.IH [of "onStream t c"]
  show ?case by simp
qed

lemma deliver_events:
  assumes "statusRef c = Streaming" and "k < length (conns c)" and "conn_open (conns c ! k)"
    and "\<forall>t \<in> set g. NL \<notin> set t"
  shows "deliver k (concat (map data_event g)) c
           = fold onStream (filter (\<lambda>t. \<not> is_think_only (trim t)) g) c"
  using assms by (simp add: deliver_def fetchAI_read_events)

lemma fold_deliver:
  assumes "statusRef c = Streaming" and "k < length (conns c)" and "conn_open (conns c ! k)"
    and "\<forall>g \<in> set groups. \<forall>t \<in> set g. NL \<notin> set t"
  shows "statusRef (fold (deliver k) (map (\<lambda>g. concat (map data_event g)) groups) c) = Streaming
         \<and> conns (fold (deliver k) (map (\<lambda>g. concat (map data_event g)) groups) c) = conns c
         \<and> bufferRef (fold (deliver k) (map (\<lambda>g. concat (map data_event g)) groups) c)
           = bufferRef c @ concat (filter (\<lambda>t. \<not> is_think_only (trim t)) (concat groups))"
  using assms
proof (induction groups arbitrary: c)
  case Nil
  then show ?case by simp
next
  case (Cons g groups)
  let ?c = "deliver k (concat (map data_event g)) c"
  have g: "\<forall>t \<in> set g. NL \<notin> set t" using Cons.prems(4) by simp
  have d: "?c = fold onStream (filter (\<lambda>t. \<not> is_think_only (trim t)) g) c"
    by (rule deliver_events [OF Cons.prems(1-3) g])
  from fold_onStream [OF Cons.prems(1), of "filter (\<lambda>t. \<not> is_think_only (trim t)) g"] d
  have s: "statusRef ?c = Streaming" and cn: "conns ?c = conns c"
    and b: "bufferRef ?c = bufferRef c @ concat (filter (\<lambda>t. \<not> is_think_only (trim t)) g)"
    by simp_all
  have "\<forall>g \<in> set groups. \<forall>t \<in> set g. NL \<notin> set t" using Cons.prems(4) by simp
  from Cons.IH [OF s _ _ this] Cons.prems(2,3) cn b
  show ?case by simp
qed

lemma send_render:
  assumes "trim (input c) \<noteq> []" and "status c = Idle"
  shows "statusRef (render (send p c)) = Streaming"
    and "bufferRef (render (send p c)) = []"
    and "length (conns c) < length (conns (render (send p c)))"
    and "conn_open (conns (render (send p c)) ! length (conns c))"
  using assms by (simp_all add: send_def render_def Let_def)

lemma find_close_length: "find_close s = Some r \<Longrightarrow> length r \<le> length s"
  by (induction s) (auto split: if_splits)

lemma remove_blocks_id: "\<not> has_block s \<Longrightarrow> remove_blocks s = s"
  by (induction s) (auto split: option.splits)

lemma remove_blocks_length: "length (remove_blocks s) \<le> length s"
proof (induction s rule: remove_blocks.induct)
  case 1
  then show ?case by simp
next
  case (2 c cs)
  show ?case
  proof (cases "starts_ci (c # cs) OPEN")
    case True
    show ?thesis
    proof (cases "find_close (drop 7 (c # cs))")
      case None
      with True 2 show ?thesis by simp
    next
      case (Some rest)
      from find_close_length [OF Some] have "length rest \<le> length cs" by simp
      with True Some 2 show ?thesis by simp
    qed
  next
    case False
    with 2 show ?thesis by simp
  qed
qed

lemma remove_blocks_shorter: "has_block s \<Longrightarrow> length (remove_blocks s) < length s"
proof (induction s rule: remove_blocks.induct)
  case 1
  then show ?case by simp
next
  case (2 c cs)
  show ?case
  proof (cases "starts_ci (c # cs) OPEN")
    case True
    show ?thesis
    proof (cases "find_close (drop 7 (c # cs))")
      case None
      with True 2 show ?thesis by simp
    next
      case (Some rest)
      from find_close_length [OF Some] have "length rest \<le> length cs" by simp
      with True Some remove_blocks_length [of rest] show ?thesis by simp
    qed
  next
    case False
    with 2 show ?thesis by simp
  qed
qed

lemma trim_length: "length (trim s) \<le> length s"
proof -
  have "length (trimEnd (trimStart s)) \<le> length (trimStart s)"
    using length_dropWhile_le [of is_ws "rev (trimStart s)"] by (simp add: trimEnd_def)
  also have "\<dots> \<le> length s"
    by (simp add: trimStart_def length_dropWhile_le)
  finally show ?thesis by (simp add: trim_def)
qed

lemma trimStart_fix: "s = [] \<or> \<not> is_ws (hd s) \<Longrightarrow> trimStart s = s"
  by (cases s) (auto simp: trimStart_def)

lemma trim_idem: "trim (trim s) = trim s"
proof -
  let ?u = "trimStart s"
  have u: "?u = [] \<or> \<not> is_ws (hd ?u)"
    using hd_dropWhile [of is_ws s] by (auto simp: trimStart_def)
  have "trimEnd ?u = [] \<or> \<not> is_ws (hd (trimEnd ?u))"
  proof (cases "trimEnd ?u = []")
    case True
    then show ?thesis by simp
  next
    case False
    then have "hd (trimEnd ?u) = hd ?u"
      by (metis hd_take take_eq_Nil trimEnd_take not_gr_zero)
    moreover from False have "?u \<noteq> []" by (auto simp: trimEnd_def)
    ultimately show ?thesis using u by simp
  qed
  then have "trimStart (trimEnd ?u) = trimEnd ?u" by (rule trimStart_fix)
  moreover have "trimEnd (trimEnd ?u) = trimEnd ?u"
    by (simp add: trimEnd_def)
  ultimately show ?thesis by (simp add: trim_def)
qed

lemma strip_idem_iff:
  "stripThinkBlocks (stripThinkBlocks s) = stripThinkBlocks s \<longleftrightarrow> \<not> has_block (stripThinkBlocks s)"
proof
  assume eq: "stripThinkBlocks (stripThinkBlocks s) = stripThinkBlocks s"
  show "\<not> has_block (stripThinkBlocks s)"
  proof
    assume "has_block (stripThinkBlocks s)"
    from remove_blocks_shorter [OF this] trim_length [of "remove_blocks (stripThinkBlocks s)"]
    have "length (stripThinkBlocks (stripThinkBlocks s)) < length (stripThinkBlocks s)"
      by (simp add: stripThinkBlocks_def)
    with eq show False by simp
  qed
next
  assume "\<not> has_block (stripThinkBlocks s)"
  then have "remove_blocks (stripThinkBlocks s) = stripThinkBlocks s"
    by (rule remove_blocks_id)
  then show "stripThinkBlocks (stripThinkBlocks s) = stripThinkBlocks s"
    by (simp add: stripThinkBlocks_def [of "stripThinkBlocks s"])
       (simp add: stripThinkBlocks_def trim_idem)
qed

lemma find_close_drop: "find_close t = None \<Longrightarrow> find_close (drop n t) = None"
proof (induction t arbitrary: n)
  case Nil
  then show ?case by simp
next
  case (Cons c cs)
  then show ?case by (cases n) (auto split: if_splits)
qed

lemma no_close_no_block: "find_close t = None \<Longrightarrow> \<not> has_block t"
proof (induction t)
  case Nil
  then show ?case by simp
next
  case (Cons c cs)
  from find_close_drop [OF Cons.prems, of 7] Cons show ?case
    by (auto split: if_splits)
qed

lemma OPEN_inner: "0 < k \<Longrightarrow> k < 7 \<Longrightarrow> upper (OPEN ! k) \<noteq> LT"
proof -
  assume "0 < k" and "k < 7"
  then have "k = 1 \<or> k = 2 \<or> k = 3 \<or> k = 4 \<or> k = 5 \<or> k = 6" by arith
  then show ?thesis by (auto simp: OPEN_def lit_def upper_def)
qed

lemma CLOSE_inner: "0 < k \<Longrightarrow> k < 8 \<Longrightarrow> upper (CLOSE ! k) \<noteq> LT"
proof -
  assume "0 < k" and "k < 8"
  then have "k = 1 \<or> k = 2 \<or> k = 3 \<or> k = 4 \<or> k = 5 \<or> k = 6 \<or> k = 7" by arith
  then show ?thesis by (auto simp: CLOSE_def lit_def upper_def)
qed

lemma starts_ci_straddle:
  assumes "q \<noteq> []" and inner: "\<And>k. 0 < k \<Longrightarrow> k < length d \<Longrightarrow> upper (d ! k) \<noteq> LT"
  shows "starts_ci (q @ LT # t) d \<longleftrightarrow> starts_ci q d"
proof (cases "length d \<le> length q")
  case True
  then show ?thesis by (simp add: starts_ci_def)
next
  case False
  then have short: "length q < length d" by simp
  have "\<not> starts_ci q d"
  proof
    assume "starts_ci q d"
    then have "length (map upper (take (length d) q)) = length (map upper d)"
      unfolding starts_ci_def by simp
    with short show False by simp
  qed
  moreover have "\<not> starts_ci (q @ LT # t) d"
  proof
    assume "starts_ci (q @ LT # t) d"
    then have eq: "map upper (take (length d) (q @ LT # t)) = map upper d"
      unfolding starts_ci_def .
    have "map upper (take (length d) (q @ LT # t)) ! length q = upper LT"
      using short by (simp add: nth_append)
    with eq have "upper (d ! length q) = upper LT"
      using short by (metis nth_map)
    moreover have "upper LT = LT" by (simp add: upper_def)
    ultimately show False using inner [of "length q"] short assms(1) by simp
  qed
  ultimately show ?thesis by simp
qed

lemma starts_ci_length: "starts_ci s d \<Longrightarrow> length d \<le> length s"
proof -
  assume "starts_ci s d"
  then have "length (map upper (take (length d) s)) = length (map upper d)"
    unfolding starts_ci_def by simp
  then show ?thesis by simp
qed

lemma find_close_append:
  assumes "find_close (LT # t) = None"
  shows "find_close (x @ LT # t) = map_option (\<lambda>r. r @ LT # t) (find_close x)"
proof (induction x)
  case Nil
  with assms show ?case by simp
next
  case (Cons c cs)
  have len: "length CLOSE = 8" by (simp add: CLOSE_def lit_def)
  have s: "starts_ci ((c # cs) @ LT # t) CLOSE \<longleftrightarrow> starts_ci (c # cs) CLOSE"
  proof (rule starts_ci_straddle)
    show "c # cs \<noteq> []" by simp
  next
    fix k assume "0 < k" and "k < length CLOSE"
    then show "upper (CLOSE ! k) \<noteq> LT" unfolding len by (rule CLOSE_inner)
  qed
  show ?case
  proof (cases "starts_ci (c # cs) CLOSE")
    case True
    from starts_ci_length [OF True] have "8 \<le> length (c # cs)" by (simp add: CLOSE_def lit_def)
    with True s show ?thesis by simp
  next
    case False
    with s Cons show ?thesis by simp
  qed
qed

lemma remove_blocks_append:
  assumes "find_close (LT # t) = None"
  shows "remove_blocks (p @ LT # t) = remove_blocks p @ LT # t"
proof (induction p rule: remove_blocks.induct)
  case 1
  from remove_blocks_id [OF no_close_no_block [OF assms]] show ?case by simp
next
  case (2 c cs)
  have len: "length OPEN = 7" by (simp add: OPEN_def lit_def)
  have s: "starts_ci ((c # cs) @ LT # t) OPEN \<longleftrightarrow> starts_ci (c # cs) OPEN"
  proof (rule starts_ci_straddle)
    show "c # cs \<noteq> []" by simp
  next
    fix k assume "0 < k" and "k < length OPEN"
    then show "upper (OPEN ! k) \<noteq> LT" unfolding len by (rule OPEN_inner)
  qed
  show ?case
  proof (cases "starts_ci (c # cs) OPEN")
    case True
    from starts_ci_length [OF True] have l7: "7 \<le> length (c # cs)" unfolding len .
    then have d: "drop 7 ((c # cs) @ LT # t) = drop 7 (c # cs) @ LT # t" by simp
    show ?thesis
    proof (cases "find_close (drop 7 (c # cs))")
      case None
      with find_close_append [OF assms, of "drop 7 (c # cs)"] d
      have "find_close (drop 7 ((c # cs) @ LT # t)) = None" by simp
      moreover from s True have "starts_ci (c # cs @ LT # t) OPEN" by simp
      ultimately have "remove_blocks ((c # cs) @ LT # t) = c # remove_blocks (cs @ LT # t)"
        by simp
      with True None 2 show ?thesis by simp
    next
      case (Some rest)
      with find_close_append [OF assms, of "drop 7 (c # cs)"] d
      have "find_close (drop 7 ((c # cs) @ LT # t)) = Some (rest @ LT # t)" by simp
      moreover from s True have "starts_ci (c # cs @ LT # t) OPEN" by simp
      ultimately have "remove_blocks ((c # cs) @ LT # t) = remove_blocks (rest @ LT # t)"
        by simp
      with True Some 2 show ?thesis by simp
    qed
  next
    case False
    with s have "\<not> starts_ci (c # cs @ LT # t) OPEN" by simp
    then have "remove_blocks ((c # cs) @ LT # t) = c # remove_blocks (cs @ LT # t)" by simp
    with False 2 show ?thesis by simp
  qed
qed

lemma trim_append_fragment: "trim (x @ LT # t) = trimStart x @ trimEnd (LT # t)"
proof -
  have a: "trimStart (x @ LT # t) = trimStart x @ LT # t"
    by (simp add: trimStart_def dropWhile_append)
  have "dropWhile is_ws (rev (LT # t) @ rev y) = dropWhile is_ws (rev (LT # t)) @ rev y" for y
    by (rule dropWhile_append1 [of LT]) simp_all
  then have b: "trimEnd (y @ LT # t) = y @ trimEnd (LT # t)" for y
    by (simp add: trimEnd_def)
  from a b show ?thesis by (simp add: trim_def)
qed

lemma starts_ci_OPEN_hd: "starts_ci t OPEN \<Longrightarrow> \<exists>t'. t = LT # t'"
proof -
  assume a: "starts_ci t OPEN"
  from starts_ci_length [OF a] have "t \<noteq> []" by (auto simp: OPEN_def lit_def)
  then obtain c t' where t: "t = c # t'" by (cases t) auto
  with a have "upper c = LT" by (simp add: starts_ci_def OPEN_def lit_def upper_def)
  then have "c = LT" by (auto simp: upper_def split: if_splits)
  with t show ?thesis by simp
qed

lemma conns_onStream: "conns (onStream t c) = conns c"
  by (simp add: onStream_def updateLastAssistant_def Let_def)

lemma conns_fetchAI_line:
  "conns (snd (snd (fetchAI_line onStream l acc))) = conns (snd (snd acc))"
  by (cases acc) (simp add: fetchAI_line_def conns_onStream Let_def)

lemma conns_fetchAI_lines:
  "conns (snd (snd (fold (fetchAI_line onStream) ls acc))) = conns (snd (snd acc))"
  by (induction ls arbitrary: acc) (simp_all add: conns_fetchAI_line)

lemma conns_deliver: "conns (deliver k v c) = conns c"
  by (simp add: deliver_def fetchAI_read_def conns_fetchAI_lines)

lemma no_signal_step:
  assumes "\<forall>cn \<in> set (conns c). conn_signal cn = None"
  shows "\<forall>cn \<in> set (conns (step p ev c)). conn_signal cn = None"
proof (cases ev)
  case (Type v)
  with assms show ?thesis by (simp add: type_input_def)
next
  case Send
  with assms show ?thesis by (auto simp: send_def Let_def)
next
  case Abort
  with assms show ?thesis
    by (auto simp: abortIfStreaming_def abort_controller_def split: option.splits)
next
  case Render
  with assms show ?thesis by (simp add: render_def Let_def)
next
  case (Deliver k v)
  with assms show ?thesis by (simp add: conns_deliver)
next
  case (Complete k)
  with assms show ?thesis
    by (auto simp: complete_def close_conn_def finally_send_def updateLastAssistant_def Let_def
        dest!: set_update_subset_insert [THEN subsetD])
next
  case (Fail k m)
  with assms show ?thesis
    by (auto simp: fail_def close_conn_def finally_send_def updateLastAssistant_def Let_def
        dest!: set_update_subset_insert [THEN subsetD])
qed

lemma no_signal_run:
  "\<forall>cn \<in> set (conns c). conn_signal cn = None \<Longrightarrow>
   \<forall>cn \<in> set (conns (run p evs c)). conn_signal cn = None"
  unfolding run_def
proof (induction evs arbitrary: c)
  case Nil
  then show ?case by simp
next
  case (Cons ev evs)
  from Cons.IH [OF no_signal_step [OF Cons.prems, of p ev]] show ?case by simp
qed

lemma abort_no_signal:
  assumes "\<forall>cn \<in> set (conns c). conn_signal cn = None"
  shows "conns (abortIfStreaming c) = conns c"
proof -
  have "abort_controller k (conns c) = conns c" for k
    using assms by (simp add: abort_controller_def map_idI)
  then show ?thesis
    by (simp add: abortIfStreaming_def split: option.split)
qed

lemmas eval_simps = lit_def trim_def trimStart_def trimEnd_def is_ws_def

lemmas chat_simps = run_def initial_chat_def props0_def type_input_def render_def send_def
  abortIfStreaming_def deliver_def complete_def fail_def finally_send_def close_conn_def
  onStream_def updateLastAssistant_def abort_controller_def fetchAI_read_def fetchAI_line_def
  startsWith_def data_event_def stripThinkBlocks_def is_think_only_def
  starts_ci_def OPEN_def CLOSE_def upper_def
  lit_def trim_def trimStart_def trimEnd_def is_ws_def Let_def


subsection \<open>sanitizeErrorText is total and bounded\<close>

text \<open>
  Claim C10. \<open>sanitizeErrorText\<close> returns a string for every input (its conversion
  failure is caught and answered by a fixed text), the string has at most 200 code
  units, and for \<open>undefined\<close>, \<open>null\<close> and the empty string it is the fixed fallback
  \<open>Connection error occurred\<close>.
\<close>

theorem sanitizeErrorText_total_bounded:
  "length (sanitizeErrorText v) \<le> 200
   \<and> sanitizeErrorText JUndefined = lit ''Connection error occurred''
   \<and> sanitizeErrorText JNull = lit ''Connection error occurred''
   \<and> sanitizeErrorText (JString []) = lit ''Connection error occurred''"
  by (simp add: sanitizeErrorText_def lit_def split: sum.split)


subsection \<open>The error event for a backend error\<close>

text \<open>
  Claim C6 says that the message of the error event holds no \<open><\<close> and no \<open>>\<close>. The
  tag pattern removes a \<open><\<close> only together with a later \<open>>\<close>, so a bracket on its own
  passes: for the status 500 and the body \<open>a > b\<close> the message ends in \<open>a > b\<close>.
\<close>

theorem relay_error_keeps_bracket_counterexample:
  "written (relay (env_demo resp_500) req_empty)
     = [error_event (lit ''Upstream 500 Internal Server Error: a > b'')]
   \<and> GT \<in> set (lit ''Upstream 500 Internal Server Error: a > b'')"
  by (simp add: relay_def build_prompt_def req_empty_def env_demo_def or_empty_def resp_500_def
      on_error_def error_message_def upstream_error_def sanitizeErrorText_def eval_simps)

text \<open>
  Claim C6, amended. For every backend answer with a non-success status the relay writes
  exactly one error event; its message has at most 200 code units and holds no complete
  tag: no \<open><\<close> that is followed, anywhere later, by a \<open>>\<close>.
\<close>

theorem relay_error_sanitized:
  assumes "build_prompt req = Inr p"
    and "upstream_fetch e \<lparr>up_model = modelToUse e req, up_prompt = p, up_stream = True\<rparr>
           = Fetch_response r"
    and "\<not> resp_ok r"
  shows "written (relay e req) = [error_event (error_message (JString (upstream_error r)))]
         \<and> length (error_message (JString (upstream_error r))) \<le> 200
         \<and> \<not> (\<exists>a b c. error_message (JString (upstream_error r)) = a @ LT # b @ GT # c)"
proof -
  have ne: "upstream_error r \<noteq> []"
    by (simp add: upstream_error_def lit_def Let_def)
  then have em: "error_message (JString (upstream_error r))
                  = sanitizeErrorText (JString (upstream_error r))"
    by (simp add: error_message_def)
  have "length (sanitizeErrorText (JString (upstream_error r))) \<le> 200"
    by (simp add: sanitizeErrorText_def lit_def)
  moreover have "\<not> (\<exists>a b c. sanitizeErrorText (JString (upstream_error r)) = a @ LT # b @ GT # c)"
    by (rule tagless_no_pair [OF tagless_sanitize])
  moreover have "written (relay e req) = [error_event (error_message (JString (upstream_error r)))]"
    using assms by (simp add: relay_def on_error_def)
  ultimately show ?thesis using em by simp
qed

text \<open>The status 503 with the body \<open><html>Service Unavailable</html>\<close>.\<close>

theorem relay_error_sanitized_witness:
  "written (relay (env_demo resp_503) req_empty)
     = [error_event (lit ''Upstream 503 Service Unavailable: Service Unavailable'')]
   \<and> length (lit ''Upstream 503 Service Unavailable: Service Unavailable'') \<le> 200
   \<and> \<not> (\<exists>a b c. lit ''Upstream 503 Service Unavailable: Service Unavailable'' = a @ LT # b @ GT # c)"
proof -
  have p: "build_prompt req_empty = Inr (chat_prompt [] [])"
    by (simp add: build_prompt_def req_empty_def or_empty_def)
  have f: "upstream_fetch (env_demo resp_503)
             \<lparr>up_model = modelToUse (env_demo resp_503) req_empty, up_prompt = chat_prompt [] [],
              up_stream = True\<rparr> = Fetch_response resp_503"
    by (simp add: env_demo_def)
  have n: "\<not> resp_ok resp_503"
    by (simp add: resp_503_def)
  have m: "error_message (JString (upstream_error resp_503))
             = lit ''Upstream 503 Service Unavailable: Service Unavailable''"
    by (simp add: error_message_def upstream_error_def resp_503_def sanitizeErrorText_def eval_simps)
  from relay_error_sanitized [OF p f n] show ?thesis
    unfolding m by simp
qed

subsection \<open>The chunk events of a successful body\<close>

text \<open>
  Claim C4 says that the relay writes one chunk event per newline-delimited line of the
  body that parses as JSON and carries a non-empty \<open>response\<close>. The relay splits every
  read on its own and carries nothing over to the next read: when the body of the one
  line \<open>{"response":"Hi"}\<close> arrives in two reads, cut inside the line, neither piece
  parses and nothing is written, although the line of the body parses.
\<close>

theorem relay_chunk_events_counterexample:
  "concat (resp_reads resp_cut) = lit ''{\"response\":\"Hi\"}'' @ [NL]
   \<and> expected_events (env_demo resp_cut) (resp_reads resp_cut) = [data_event (lit ''Hi'')]
   \<and> written (relay (env_demo resp_cut) req_empty) = []"
  by (simp add: relay_def build_prompt_def req_empty_def env_demo_def or_empty_def resp_cut_def
      modelToUse_def Let_def process_line_def parse_demo_def expected_events_def line_text_def
      List.map_filter_simps lit_def trim_def trimStart_def trimEnd_def is_ws_def)

text \<open>
  Claim C4, amended. When the backend answers with success and its body ends, the relay
  contacts it once, writes exactly one chunk event per piece of a read between newlines
  (each read split on its own) that is not blank, parses as JSON and carries a truthy
  \<open>response\<close> whose conversion to a string succeeds, carrying that conversion, in the
  order of the pieces, and ends the stream. When every read ends in a newline, these are
  the events of the lines of the body. For a \<open>response\<close> that is text, the event is
  written exactly when the text is not empty and carries exactly the text. A piece that
  does not parse adds nothing and changes nothing for the pieces around it.
\<close>

theorem relay_chunk_events:
  assumes "build_prompt req = Inr p"
    and "upstream_fetch e \<lparr>up_model = modelToUse e req, up_prompt = p, up_stream = True\<rparr>
           = Fetch_response r"
    and "resp_ok r" and "resp_end r = Body_done"
  shows "relay e req =
           \<lparr>contacted = Some \<lparr>up_model = modelToUse e req, up_prompt = p, up_stream = True\<rparr>,
            written = piece_events e (resp_reads r), ended = True\<rparr>
         \<and> ((\<forall>v \<in> set (resp_reads r). v \<noteq> [] \<and> last v = NL) \<longrightarrow>
               written (relay e req)
                 = map data_event
                     (List.map_filter (piece_text e) (split_nl (concat (resp_reads r)))))
         \<and> (\<forall>l c t. trim l \<noteq> [] \<and> JSON_parse e l = Some c \<and> chunk_response c = JString t \<longrightarrow>
               piece_text e l = (if t = [] then None else Some t))
         \<and> (\<forall>l ls1 ls2 out. JSON_parse e l = None \<longrightarrow>
               process_lines e (ls1 @ l # ls2) out = process_lines e (ls1 @ ls2) out)"
proof -
  have 1: "relay e req =
           \<lparr>contacted = Some \<lparr>up_model = modelToUse e req, up_prompt = p, up_stream = True\<rparr>,
            written = piece_events e (resp_reads r), ended = True\<rparr>"
    using assms read_loop_spec [of e "resp_reads r" "[]"]
    by (simp add: relay_def)
  have 2: "written (relay e req)
             = map data_event (List.map_filter (piece_text e) (split_nl (concat (resp_reads r))))"
    if "\<forall>v \<in> set (resp_reads r). v \<noteq> [] \<and> last v = NL"
    using whole_lines_pieces [OF that, of e] 1 by (simp add: piece_events_def)
  have 3: "piece_text e l = (if t = [] then None else Some t)"
    if "trim l \<noteq> [] \<and> JSON_parse e l = Some c \<and> chunk_response c = JString t" for l c t
    using that by (simp add: piece_text_def)
  have 4: "process_lines e (ls1 @ l # ls2) out = process_lines e (ls1 @ ls2) out"
    if "JSON_parse e l = None" for l ls1 ls2 out
    using that by (simp add: process_lines_append process_line_def)
  from 1 2 3 4 show ?thesis by blast
qed

text \<open>
  Two reads, the first ending in the half of a line, which is dropped; and one read of
  one whole line.
\<close>

theorem relay_chunk_events_witness:
  "relay (env_demo resp_two) req_empty =
     \<lparr>contacted = Some \<lparr>up_model = lit ''llama3.2'', up_prompt = chat_prompt [] [],
                          up_stream = True\<rparr>,
      written = [data_event (lit ''Hi''), data_event (lit '' there'')], ended = True\<rparr>
   \<and> written (relay (env_demo resp_hi) req_empty) = [data_event (lit ''Hi'')]
   \<and> piece_text (env_demo resp_hi) (lit ''{\"response\":\"Hi\"}'') = Some (lit ''Hi'')
   \<and> process_lines (env_demo resp_two)
        ([lit ''{\"response\":\"Hi\"}''] @ lit ''{\"respo'' # [lit ''{\"response\":\" there\"}'']) []
      = process_lines (env_demo resp_two)
        ([lit ''{\"response\":\"Hi\"}''] @ [lit ''{\"response\":\" there\"}'']) []"
proof -
  let ?e = "env_demo resp_two" and ?h = "env_demo resp_hi"
  have p: "build_prompt req_empty = Inr (chat_prompt [] [])"
    by (simp add: build_prompt_def req_empty_def or_empty_def)
  have m: "modelToUse ?e req_empty = lit ''llama3.2''"
    and m': "modelToUse ?h req_empty = lit ''llama3.2''"
    by (simp_all add: modelToUse_def req_empty_def env_demo_def)
  have f: "upstream_fetch ?e
             \<lparr>up_model = modelToUse ?e req_empty, up_prompt = chat_prompt [] [], up_stream = True\<rparr>
           = Fetch_response resp_two"
    and f': "upstream_fetch ?h
             \<lparr>up_model = modelToUse ?h req_empty, up_prompt = chat_prompt [] [], up_stream = True\<rparr>
           = Fetch_response resp_hi"
    by (simp_all add: env_demo_def)
  have ok: "resp_ok resp_two" and dn: "resp_end resp_two = Body_done"
    by (simp_all add: resp_two_def)
  have ok': "resp_ok resp_hi" and dn': "resp_end resp_hi = Body_done"
    by (simp_all add: resp_hi_def)
  have ev: "piece_events ?e (resp_reads resp_two)
              = [data_event (lit ''Hi''), data_event (lit '' there'')]"
    by (simp add: piece_events_def pieces_def piece_text_def env_demo_def resp_two_def
        List.map_filter_simps parse_demo_def eval_simps)
  have bad: "JSON_parse ?e (lit ''{\"respo'') = None"
    by (simp add: env_demo_def parse_demo_def lit_def)
  have whole: "\<forall>v \<in> set (resp_reads resp_hi). v \<noteq> [] \<and> last v = NL"
    by (simp add: resp_hi_def lit_def)
  have body: "map data_event
                (List.map_filter (piece_text ?h) (split_nl (concat (resp_reads resp_hi))))
              = [data_event (lit ''Hi'')]"
    by (simp add: piece_text_def env_demo_def resp_hi_def
        List.map_filter_simps parse_demo_def eval_simps)
  have tx: "trim (lit ''{\"response\":\"Hi\"}'') \<noteq> []
            \<and> JSON_parse ?h (lit ''{\"response\":\"Hi\"}'') = Some \<lparr>chunk_response = JString (lit ''Hi'')\<rparr>
            \<and> chunk_response \<lparr>chunk_response = JString (lit ''Hi'')\<rparr> = JString (lit ''Hi'')"
    by (simp add: env_demo_def parse_demo_def eval_simps)
  have ne: "lit ''Hi'' \<noteq> []" by (simp add: lit_def)
  from relay_chunk_events [OF p f ok dn] bad
  have 1: "relay ?e req_empty =
     \<lparr>contacted = Some \<lparr>up_model = lit ''llama3.2'', up_prompt = chat_prompt [] [],
                          up_stream = True\<rparr>,
      written = [data_event (lit ''Hi''), data_event (lit '' there'')], ended = True\<rparr>"
    and 4: "process_lines ?e
        ([lit ''{\"response\":\"Hi\"}''] @ lit ''{\"respo'' # [lit ''{\"response\":\" there\"}'']) []
      = process_lines ?e
        ([lit ''{\"response\":\"Hi\"}''] @ [lit ''{\"response\":\" there\"}'']) []"
    unfolding m ev by blast+
  from relay_chunk_events [OF p f' ok' dn'] whole
  have "written (relay ?h req_empty)
          = map data_event
              (List.map_filter (piece_text ?h) (split_nl (concat (resp_reads resp_hi))))"
    by blast
  with body have 2: "written (relay ?h req_empty) = [data_event (lit ''Hi'')]"
    by simp
  from relay_chunk_events [OF p f' ok' dn'] tx ne
  have 3: "piece_text ?h (lit ''{\"response\":\"Hi\"}'') = Some (lit ''Hi'')"
    by metis
  from 1 2 3 4 show ?thesis by blast
qed

subsection \<open>Requests with neither message nor selection\<close>

text \<open>
  Claim C3 says that a request without message and without selection is rejected before
  the backend is contacted, with one error event and no chunk event. The handler has no
  validation: for the empty request and a backend that answers \<open>Hi\<close>, the backend is
  contacted and the chunk is relayed.
\<close>

theorem relay_unvalidated_counterexample:
  "relay (env_demo resp_hi) req_empty =
     \<lparr>contacted = Some \<lparr>up_model = lit ''llama3.2'', up_prompt = chat_prompt [] [],
                          up_stream = True\<rparr>,
      written = [data_event (lit ''Hi'')], ended = True\<rparr>
   \<and> (\<forall>m. data_event (lit ''Hi'') \<noteq> error_event m)"
  by (simp add: relay_def build_prompt_def req_empty_def env_demo_def or_empty_def resp_hi_def
      modelToUse_def Let_def process_line_def parse_demo_def data_event_def error_event_def
      lit_def trim_def trimStart_def trimEnd_def is_ws_def)

text \<open>
  Claim C3, amended. For a request without message and without selection the relay does
  not validate the shape of the request. When the conversion of \<open>doc || ''\<close> to a string
  throws, it writes exactly one error event and does not contact the backend. Otherwise
  it builds the chat prompt of the empty message and contacts the backend with it; it
  writes exactly one error event and no chunk event when the call is rejected or the
  status is not a success; on success it writes one chunk event per piece of a read that
  is not blank, parses and carries a truthy \<open>response\<close> whose conversion to a string
  succeeds, followed by one error event only when a read of the body fails.
\<close>

theorem relay_forwards_without_validation:
  assumes "req_message req = JUndefined" and "req_selection req = JUndefined"
  shows "(case js_String (or_empty (req_doc req)) of
            Inl thrown \<Rightarrow>
              contacted (relay e req) = None
              \<and> written (relay e req) = [error_event (error_message thrown)]
          | Inr d \<Rightarrow>
              contacted (relay e req)
                = Some \<lparr>up_model = modelToUse e req, up_prompt = chat_prompt [] d,
                        up_stream = True\<rparr>
              \<and> written (relay e req)
                = (case upstream_fetch e
                          \<lparr>up_model = modelToUse e req, up_prompt = chat_prompt [] d,
                           up_stream = True\<rparr> of
                     Fetch_rejected m \<Rightarrow> [error_event (error_message m)]
                   | Fetch_response r \<Rightarrow>
                       if resp_ok r then
                         piece_events e (resp_reads r)
                           @ (case resp_end r of
                                Body_done \<Rightarrow> []
                              | Body_error m \<Rightarrow> [error_event (error_message m)])
                       else [error_event (error_message (JString (upstream_error r)))]))"
proof (cases "js_String (or_empty (req_doc req))")
  case (Inl thrown)
  with assms have "build_prompt req = Inl thrown"
    by (simp add: build_prompt_def or_empty_def)
  with Inl show ?thesis
    by (simp add: relay_def on_error_def)
next
  case (Inr d)
  with assms have "build_prompt req = Inr (chat_prompt [] d)"
    by (simp add: build_prompt_def or_empty_def)
  with Inr read_loop_spec [of e _ "[]"] show ?thesis
    by (simp add: relay_def on_error_def Let_def split: fetch_result.split body_end.split)
qed

text \<open>
  The empty request with a backend that answers \<open>Hi\<close>; and a request whose \<open>doc\<close> is an
  object that cannot be converted to a string, such as \<open>{"toString":1}\<close>.
\<close>

theorem relay_forwards_without_validation_witness:
  "contacted (relay (env_demo resp_hi) req_empty)
     = Some \<lparr>up_model = lit ''llama3.2'', up_prompt = chat_prompt [] [], up_stream = True\<rparr>
   \<and> written (relay (env_demo resp_hi) req_empty) = [data_event (lit ''Hi'')]
   \<and> contacted (relay (env_demo resp_hi) req_doc_throws) = None
   \<and> written (relay (env_demo resp_hi) req_doc_throws)
     = [error_event (lit ''Cannot convert object to primitive value'')]"
proof -
  let ?e = "env_demo resp_hi"
  have a: "req_message req_empty = JUndefined" and b: "req_selection req_empty = JUndefined"
    and a': "req_message req_doc_throws = JUndefined"
    and b': "req_selection req_doc_throws = JUndefined"
    by (simp_all add: req_empty_def req_doc_throws_def)
  have d: "js_String (or_empty (req_doc req_empty)) = Inr []"
    and d': "js_String (or_empty (req_doc req_doc_throws))
               = Inl (JString (lit ''Cannot convert object to primitive value''))"
    by (simp_all add: req_empty_def req_doc_throws_def or_empty_def)
  have m: "modelToUse ?e req_empty = lit ''llama3.2''"
    by (simp add: modelToUse_def req_empty_def env_demo_def)
  have f: "upstream_fetch ?e up = Fetch_response resp_hi" for up
    by (simp add: env_demo_def)
  have r: "piece_events ?e (resp_reads resp_hi) = [data_event (lit ''Hi'')]"
    by (simp add: piece_events_def pieces_def piece_text_def env_demo_def resp_hi_def
        List.map_filter_simps parse_demo_def eval_simps)
  have ok: "resp_ok resp_hi" and dn: "resp_end resp_hi = Body_done"
    by (simp_all add: resp_hi_def)
  have em: "error_message (JString (lit ''Cannot convert object to primitive value''))
              = lit ''Cannot convert object to primitive value''"
    by (simp add: error_message_def sanitizeErrorText_def eval_simps)
  from relay_forwards_without_validation [OF a b, of ?e]
  have 1: "contacted (relay ?e req_empty)
     = Some \<lparr>up_model = lit ''llama3.2'', up_prompt = chat_prompt [] [], up_stream = True\<rparr>
   \<and> written (relay ?e req_empty) = [data_event (lit ''Hi'')]"
    unfolding d m f by (simp add: r ok dn)
  from relay_forwards_without_validation [OF a' b', of ?e]
  have 2: "contacted (relay ?e req_doc_throws) = None
   \<and> written (relay ?e req_doc_throws)
     = [error_event (lit ''Cannot convert object to primitive value'')]"
    unfolding d' by (simp add: em)
  from 1 2 show ?thesis by simp
qed

subsection \<open>The prompt of a transform request\<close>

text \<open>
  Claim C7 says that the relay's prompt embeds the trimmed selection. The relay embeds
  the selection as it arrives: for the selection \<open>hi\<close> with a space on each side the
  prompt ends in the untrimmed text.
\<close>

theorem relay_prompt_untrimmed_counterexample:
  "up_prompt (the (contacted (relay (env_demo resp_hi) req_shorten)))
     = action_template (lit ''shorten'') @ lit '' hi ''
   \<and> action_template (lit ''shorten'') @ lit '' hi ''
     \<noteq> action_template (lit ''shorten'') @ trim (lit '' hi '')"
  by (simp add: relay_def build_prompt_def req_shorten_def env_demo_def or_empty_def
      buildActionPrompt_def action_template_def resp_hi_def Let_def eval_simps)

text \<open>
  Claim C7, amended. For a request with a non-empty selection text, the relay's prompt is
  the template selected by the action followed by the selection as received, untrimmed;
  \<open>buildActionPrompt\<close> of the client's prompt utilities embeds the trimmed selection in
  the same template; and every action other than \<open>shorten\<close>, \<open>lengthen\<close> and
  \<open>table\<close>, an absent one included, selects the proofreading template.
\<close>

theorem relay_prompt_template:
  assumes "req_selection req = JString sel" and "sel \<noteq> []"
    and "req_action req = JString act \<or> (req_action req = JUndefined \<and> act = [])"
  shows "contacted (relay e req)
           = Some \<lparr>up_model = modelToUse e req, up_prompt = action_template act @ sel,
                   up_stream = True\<rparr>
         \<and> aiPrompts_buildActionPrompt sel act = action_template act @ trim sel
         \<and> (act \<notin> {lit ''shorten'', lit ''lengthen'', lit ''table''} \<longrightarrow>
              action_template act
                = lit ''Improve clarity and grammar. Return only the revised text.'' @ [NL, NL])"
proof -
  from assms have "build_prompt req = Inr (buildActionPrompt sel act)"
    by (auto simp: build_prompt_def or_empty_def)
  moreover have "buildActionPrompt sel act = action_template act @ sel"
    by (simp add: buildActionPrompt_def action_template_def)
  ultimately have "contacted (relay e req)
           = Some \<lparr>up_model = modelToUse e req, up_prompt = action_template act @ sel,
                   up_stream = True\<rparr>"
    by (simp add: relay_def on_error_def Let_def split: fetch_result.split body_end.split)
  moreover have "aiPrompts_buildActionPrompt sel act = action_template act @ trim sel"
    by (simp add: aiPrompts_buildActionPrompt_def action_template_def)
  moreover have "act \<notin> {lit ''shorten'', lit ''lengthen'', lit ''table''} \<longrightarrow>
              action_template act
                = lit ''Improve clarity and grammar. Return only the revised text.'' @ [NL, NL]"
    by (simp add: action_template_def)
  ultimately show ?thesis by blast
qed

theorem relay_prompt_template_witness:
  "contacted (relay (env_demo resp_hi) req_shorten)
     = Some \<lparr>up_model = lit ''llama3.2'',
             up_prompt = action_template (lit ''shorten'') @ lit '' hi '', up_stream = True\<rparr>
   \<and> aiPrompts_buildActionPrompt (lit '' hi '') (lit ''shorten'')
     = action_template (lit ''shorten'') @ lit ''hi''
   \<and> action_template (lit ''tabularize'')
     = lit ''Improve clarity and grammar. Return only the revised text.'' @ [NL, NL]"
proof -
  let ?r = "req_shorten\<lparr>req_action := JString (lit ''tabularize'')\<rparr>"
  have sel: "req_selection req_shorten = JString (lit '' hi '')"
    and sel': "req_selection ?r = JString (lit '' hi '')"
    and ne: "lit '' hi '' \<noteq> []"
    and act: "req_action req_shorten = JString (lit ''shorten'')
              \<or> (req_action req_shorten = JUndefined \<and> lit ''shorten'' = [])"
    and act': "req_action ?r = JString (lit ''tabularize'')
              \<or> (req_action ?r = JUndefined \<and> lit ''tabularize'' = [])"
    by (simp_all add: req_shorten_def lit_def)
  have m: "modelToUse (env_demo resp_hi) req_shorten = lit ''llama3.2''"
    by (simp add: modelToUse_def req_shorten_def env_demo_def)
  have t: "trim (lit '' hi '') = lit ''hi''"
    by (simp add: eval_simps)
  have u: "lit ''tabularize'' \<notin> {lit ''shorten'', lit ''lengthen'', lit ''table''}"
    by (simp add: lit_def)
  from relay_prompt_template [OF sel ne act, of "env_demo resp_hi"] m t
  have 1: "contacted (relay (env_demo resp_hi) req_shorten)
     = Some \<lparr>up_model = lit ''llama3.2'',
             up_prompt = action_template (lit ''shorten'') @ lit '' hi '', up_stream = True\<rparr>"
    and 2: "aiPrompts_buildActionPrompt (lit '' hi '') (lit ''shorten'')
     = action_template (lit ''shorten'') @ lit ''hi''"
    by simp_all
  from relay_prompt_template [OF sel' ne act', of "env_demo resp_hi"] u
  have 3: "action_template (lit ''tabularize'')
     = lit ''Improve clarity and grammar. Return only the revised text.'' @ [NL, NL]"
    by blast
  from 1 2 3 show ?thesis by blast
qed

subsection \<open>send without effect\<close>

text \<open>
  Claim C9. When the input of the last render trims to the empty string, or the status of
  the last render is not \<open>idle\<close>, \<open>send\<close> returns the component's state as it was:
  the transcript, the buffer, the status, the input, also their pending values, and the
  list of network calls are all unchanged.
\<close>

theorem send_noop:
  "trim (input c) = [] \<or> status c \<noteq> Idle \<Longrightarrow> send p c = c"
  by (auto simp: send_def)

text \<open>An input of three spaces; and a second \<open>send\<close> while the first is streaming.\<close>

theorem send_noop_witness:
  "send props0 (run props0 [Type (lit ''   ''), Render] initial_chat)
     = run props0 [Type (lit ''   ''), Render] initial_chat
   \<and> send props0 (run props0 [Type (lit ''hi''), Render, Send, Render, Type (lit ''more''), Render] initial_chat)
     = run props0 [Type (lit ''hi''), Render, Send, Render, Type (lit ''more''), Render] initial_chat"
proof -
  let ?a = "run props0 [Type (lit ''   ''), Render] initial_chat"
  let ?b = "run props0 [Type (lit ''hi''), Render, Send, Render, Type (lit ''more''), Render] initial_chat"
  have a: "trim (input ?a) = [] \<or> status ?a \<noteq> Idle"
    by (simp add: chat_simps)
  have b: "trim (input ?b) = [] \<or> status ?b \<noteq> Idle"
    by (simp add: chat_simps)
  from send_noop [OF a, of props0] send_noop [OF b, of props0] show ?thesis by simp
qed

subsection \<open>The accumulated text\<close>

text \<open>
  Claim C5 says that the accumulated text is the concatenation of all chunks delivered.
  \<open>fetchAI\<close> does not pass on a chunk that is by itself a complete think block: of the
  chunks \<open><think>plan</think>\<close> and \<open>Hi\<close> only the second is accumulated.
\<close>

theorem accumulated_text_counterexample:
  "bufferRef (run props0 [Type (lit ''hello''), Render, Send, Render,
                          Deliver 0 (data_event (lit ''<think>plan</think>'')),
                          Deliver 0 (data_event (lit ''Hi''))] initial_chat)
     = lit ''Hi''
   \<and> lit ''Hi'' \<noteq> lit ''<think>plan</think>'' @ lit ''Hi''"
  by (simp add: chat_simps)

text \<open>
  Claim C5, amended. After an accepted \<open>send\<close> and the render that follows it, let the
  reads of the new connection deliver the relay's chunk events in order, each read
  holding whole events, for chunks without a newline. Then the accumulated text is the
  concatenation, in order, of the chunks that are not by themselves a complete
  \<open><think>...</think>\<close> block after trimming; \<open>fetchAI\<close> keeps those from the
  callback.
\<close>

theorem accumulated_text:
  assumes "trim (input c) \<noteq> []" and "status c = Idle"
    and "\<forall>g \<in> set groups. \<forall>t \<in> set g. NL \<notin> set t"
  shows "bufferRef (run p (Send # Render
             # map (\<lambda>g. Deliver (length (conns c)) (concat (map data_event g))) groups) c)
         = concat (filter (\<lambda>t. \<not> is_think_only (trim t)) (concat groups))"
proof -
  have "fold (step p) (map (\<lambda>g. Deliver k (concat (map data_event g))) groups) c'
        = fold (deliver k) (map (\<lambda>g. concat (map data_event g)) groups) c'" for k c'
    by (induction groups arbitrary: c') simp_all
  then have "run p (Send # Render
             # map (\<lambda>g. Deliver (length (conns c)) (concat (map data_event g))) groups) c
        = fold (deliver (length (conns c))) (map (\<lambda>g. concat (map data_event g)) groups)
            (render (send p c))"
    by (simp add: run_def)
  with fold_deliver [OF send_render(1,3,4) [OF assms(1,2)] assms(3), of p] send_render(2) [OF assms(1,2), of p]
  show ?thesis by simp
qed

text \<open>Two reads with two events each; the first chunk is a complete think block.\<close>

theorem accumulated_text_witness:
  "bufferRef (run props0
       [Send, Render,
        Deliver 0 (data_event (lit ''<think>plan</think>'') @ data_event (lit ''Hi'')),
        Deliver 0 (data_event (lit '' there'') @ data_event (lit ''!''))]
       (run props0 [Type (lit ''hello''), Render] initial_chat))
     = lit ''Hi there!''"
proof -
  let ?c = "run props0 [Type (lit ''hello''), Render] initial_chat"
  let ?groups = "[[lit ''<think>plan</think>'', lit ''Hi''], [lit '' there'', lit ''!'']]"
  have a: "trim (input ?c) \<noteq> []" and b: "status ?c = Idle" and k: "length (conns ?c) = 0"
    by (simp_all add: chat_simps)
  have n: "\<forall>g \<in> set ?groups. \<forall>t \<in> set g. NL \<notin> set t"
    by (simp add: lit_def)
  have f: "concat (filter (\<lambda>t. \<not> is_think_only (trim t)) (concat ?groups)) = lit ''Hi there!''"
    by (simp add: is_think_only_def eval_simps)
  from accumulated_text [OF a b n, of props0] show ?thesis
    unfolding f k by simp
qed

subsection \<open>The filter for think blocks\<close>

text \<open>
  Claim C8 says that the filter is idempotent and leaves an unterminated fragment
  untouched. Removing the inner block of \<open><thi<think>x</think>nk>y</think>\<close> joins a
  new block, which a second pass removes; and the space that ends the fragment
  \<open><think>\<close> followed by a space is trimmed.
\<close>

theorem strip_think_blocks_counterexample:
  "stripThinkBlocks (lit ''<thi<think>x</think>nk>y</think>'') = lit ''<think>y</think>''
   \<and> stripThinkBlocks (stripThinkBlocks (lit ''<thi<think>x</think>nk>y</think>'')) = []
   \<and> stripThinkBlocks (lit ''<think> '') = lit ''<think>''
   \<and> lit ''<think>'' \<noteq> lit ''<think> ''"
  by (simp add: chat_simps)

text \<open>
  Claim C8, amended. Filtering a second time changes nothing exactly when the filtered
  text holds no complete block (removing a block can join the pieces of a new one). And
  when a text ends in a fragment that begins with an opening delimiter and holds no
  closing one, the filter keeps the fragment, up to the whitespace at its end, which
  \<open>trim\<close> removes.
\<close>

theorem strip_think_blocks:
  "(stripThinkBlocks (stripThinkBlocks s) = stripThinkBlocks s
      \<longleftrightarrow> \<not> has_block (stripThinkBlocks s))
   \<and> (starts_ci t OPEN \<and> find_close t = None \<longrightarrow>
        stripThinkBlocks (p @ t) = trimStart (remove_blocks p) @ trimEnd t)"
proof -
  have "stripThinkBlocks (p @ t) = trimStart (remove_blocks p) @ trimEnd t"
    if a: "starts_ci t OPEN" and b: "find_close t = None"
  proof -
    from starts_ci_OPEN_hd [OF a] obtain t' where t: "t = LT # t'" by blast
    with b have "find_close (LT # t') = None" by simp
    from remove_blocks_append [OF this, of p] t show ?thesis
      by (simp add: stripThinkBlocks_def trim_append_fragment)
  qed
  with strip_idem_iff show ?thesis by blast
qed

text \<open>A text with one block; and a fragment behind a block written in capitals.\<close>

theorem strip_think_blocks_witness:
  "stripThinkBlocks (stripThinkBlocks (lit ''<think>a</think> answer''))
     = stripThinkBlocks (lit ''<think>a</think> answer'')
   \<and> stripThinkBlocks (lit ''a<Think>b</THINK>c <think>partial '') = lit ''ac <think>partial''"
proof -
  let ?s = "lit ''<think>a</think> answer''"
  let ?p = "lit ''a<Think>b</THINK>c ''"
  let ?t = "lit ''<think>partial ''"
  have h: "\<not> has_block (stripThinkBlocks ?s)"
    by (simp add: chat_simps)
  have o: "starts_ci ?t OPEN \<and> find_close ?t = None"
    by (simp add: chat_simps)
  have e: "trimStart (remove_blocks ?p) @ trimEnd ?t = lit ''ac <think>partial''"
    by (simp add: chat_simps)
  have pt: "?p @ ?t = lit ''a<Think>b</THINK>c <think>partial ''"
    by (simp add: lit_def)
  from strip_think_blocks [of ?s ?t ?p] h o e pt show ?thesis by simp
qed

subsection \<open>Cancellation\<close>

text \<open>
  Claim C2 says that cancelling tears the connection down. \<open>send\<close> creates an
  \<open>AbortController\<close> and \<open>abortIfStreaming\<close> aborts it, but its signal is never
  given to \<open>fetch\<close>. So in every state the component can reach, \<open>abortIfStreaming\<close>
  leaves every connection as it is; after a request, a cancellation and the render
  that follows, the connection of the request has no signal and is still open.
\<close>

theorem abort_leaves_connection_open:
  "conns (abortIfStreaming (run p evs initial_chat)) = conns (run p evs initial_chat)
   \<and> conns (run props0 [Type (lit ''a''), Render, Send, Render, Abort, Render] initial_chat)
     = [\<lparr>conn_message = lit ''a'', conn_doc = [], conn_model = lit ''llama3.2'',
         conn_signal = None, conn_open = True\<rparr>]"
proof -
  have "\<forall>cn \<in> set (conns initial_chat). conn_signal cn = None"
    by (simp add: initial_chat_def)
  from abort_no_signal [OF no_signal_run [OF this]]
  have "conns (abortIfStreaming (run p evs initial_chat)) = conns (run p evs initial_chat)" .
  moreover
  have "conns (run props0 [Type (lit ''a''), Render, Send, Render, Abort, Render] initial_chat)
     = [\<lparr>conn_message = lit ''a'', conn_doc = [], conn_model = lit ''llama3.2'',
         conn_signal = None, conn_open = True\<rparr>]"
    by (simp add: chat_simps)
  ultimately show ?thesis by simp
qed

text \<open>
  Claim C1 says that no chunk delivered after a cancellation is ever appended. After
  the cancellation and a render the status is \<open>idle\<close>; the connection stays open, and
  once a second request is streaming, a chunk of the first, cancelled request is appended
  to the buffer and to the assistant entry of the second.
\<close>

theorem stale_chunk_after_cancel:
  "status (run props0 [Type (lit ''a''), Render, Send, Render, Abort, Render] initial_chat) = Idle
   \<and> statusRef (run props0 [Type (lit ''a''), Render, Send, Render, Abort, Render] initial_chat) = Idle
   \<and> bufferRef (run props0 [Type (lit ''a''), Render, Send, Render, Abort, Render,
                            Type (lit ''b''), Render, Send, Render,
                            Deliver 0 (data_event (lit ''x''))] initial_chat) = lit ''x''
   \<and> messages (run props0 [Type (lit ''a''), Render, Send, Render, Abort, Render,
                           Type (lit ''b''), Render, Send, Render,
                           Deliver 0 (data_event (lit ''x''))] initial_chat)
     = [\<lparr>role = User, content = lit ''a''\<rparr>, \<lparr>role = Assistant, content = lit ''__thinking__''\<rparr>,
        \<lparr>role = User, content = lit ''b''\<rparr>, \<lparr>role = Assistant, content = lit ''x''\<rparr>]"
  by (simp add: chat_simps)

text \<open>
  When a request is cancelled before any chunk arrives and its stream then ends, the
  placeholder of the assistant entry is replaced by \<open>[No response]\<close>.
\<close>

lemma cancel_then_stream_end:
  "messages (run props0 [Type (lit ''a''), Render, Send, Render, Abort, Render, Complete 0, Render] initial_chat)
  = [\<lparr>role = User, content = lit ''a''\<rparr>, \<lparr>role = Assistant, content = lit ''[No response]''\<rparr>]"
  by (simp add: chat_simps)

end
